theory Spec2Isabelle
  imports Complex_Main "HOL-Library.Sublist" "HOL-Library.AList"
begin

section \<open>Conventions of the embedding\<close>

text \<open>
  The repository holds two reconciliation engines written in Python:
  \<^item> \<^verbatim>\<open>conciliacao_bancaria_contabil.py\<close> (pandas): \<^verbatim>\<open>to_float_br\<close>,
    \<^verbatim>\<open>limpar_prefixo\<close>, \<^verbatim>\<open>normalizar_texto\<close>, \<^verbatim>\<open>conciliar\<close>;
  \<^item> \<^verbatim>\<open>conciliacao_bancaria_cliente.py\<close> (class \<^verbatim>\<open>ConciliacaoCliente\<close>):
    \<^verbatim>\<open>parse_valor\<close>, \<^verbatim>\<open>esta_no_intervalo\<close>, \<^verbatim>\<open>processar_lancamentos\<close>,
    \<^verbatim>\<open>realizar_matching\<close>.

  Text is a \<open>string\<close>; the string functions are those of Python on ASCII text (a
  character outside ASCII is left alone by the model of \<^verbatim>\<open>upper\<close> and is never a
  digit, a letter or white space).  A finite amount is a rational number: the value a
  Python \<^verbatim>\<open>float\<close> or \<^verbatim>\<open>Decimal\<close> stands for, without the rounding to 53 bits or to 28
  digits and without overflow; infinities and NaN are values of their own where the
  parsers can produce them.  A pandas \<^verbatim>\<open>Timestamp\<close> is a number of seconds, and
  \<^verbatim>\<open>NaT\<close>/\<^verbatim>\<open>None\<close> is \<open>None\<close>.
\<close>

type_synonym timestamp = int

section \<open>The financial/accounting engine: \<^verbatim>\<open>conciliar\<close>\<close>

subsection \<open>The two ledgers\<close>

text \<open>
  One row of the frame returned by \<^verbatim>\<open>ler_financeiro\<close> and one of the frame returned by
  \<^verbatim>\<open>ler_contabil\<close>, with the columns \<^verbatim>\<open>conciliar\<close> reads.  A frame is its rows in
  \<^verbatim>\<open>iterrows\<close> order together with the fact whether it has the date column; the index
  label of a row is its position.  The amounts are finite numbers.
\<close>

record fin_row =
  TEXTO_FIN :: string
  TEXTO_FIN_NORM :: string
  TEXTO_FIN_NUM :: string
  IDENTIFICADOR_FIN :: string
  VALOR_FIN :: rat
  TIPO_FIN :: string
  DATA_FIN :: "timestamp option"

record cont_row =
  HIST_TXT :: string
  HIST_NORM :: string
  HIST_NUM :: string
  IDENTIFICADOR :: string
  VALOR_CONTABIL :: rat
  TIPO_CONTABIL :: string
  DATA_CONTABIL :: "timestamp option"

record fin_df =
  fin_tem_data :: bool
  fin_linhas :: "fin_row list"

record cont_df =
  cont_tem_data :: bool
  cont_linhas :: "cont_row list"

text \<open>
  One dictionary appended to \<^verbatim>\<open>out\<close>.  The eleven columns are those of the source (a
  date column holds the timestamp that the source formats with \<^verbatim>\<open>strftime\<close>, \<open>None\<close>
  for the empty string).  \<open>ORIGEM_FIN\<close> and \<open>ORIGEM_CONT\<close> are not columns of the
  output: they record the position of the financial row and of the accounting row the
  dictionary was built from, so that coverage can be stated.
\<close>

record resultado =
  STATUS :: string
  DATA_RELATORIO_FINANCEIRO :: "timestamp option"
  TIPO_RELATORIO_FINANCEIRO :: string
  TEXTO_RELATORIO_FINANCEIRO :: string
  VALOR_RELATORIO_FINANCEIRO :: rat
  DATA_RELATORIO_CONTABIL :: "timestamp option"
  TIPO_RELATORIO_CONTABIL :: string
  HISTORICO_RELATORIO_CONTABIL :: string
  VALOR_RELATORIO_CONTABIL :: rat
  DIF :: rat
  OBS :: string
  ORIGEM_FIN :: "nat option"
  ORIGEM_CONT :: "nat option"

subsection \<open>Helpers of Python\<close>

text \<open>\<^verbatim>\<open>round(x, 2)\<close>: to the nearest hundredth, a tie to the even one.\<close>

definition round_half_even :: "rat \<Rightarrow> int" where
  "round_half_even x =
     (let f = \<lfloor>x\<rfloor>; d = x - of_int f
      in if d < 1 / 2 then f
         else if 1 / 2 < d then f + 1
         else if even f then f else f + 1)"

definition round2 :: "rat \<Rightarrow> rat" where
  "round2 x = of_int (round_half_even (x * 100)) / 100"

text \<open>\<^verbatim>\<open>a in b\<close> on strings: \<open>a\<close> occurs in \<open>b\<close> as a contiguous piece.\<close>

fun str_in :: "string \<Rightarrow> string \<Rightarrow> bool" where
  "str_in a [] = (a = [])"
| "str_in a (c # cs) = (prefix a (c # cs) \<or> str_in a cs)"

text \<open>\<^verbatim>\<open>abs((a - b).days)\<close>: the days of a time difference are its floor.\<close>

definition dif_dias :: "timestamp \<Rightarrow> timestamp \<Rightarrow> int" where
  "dif_dias a b = \<bar>(a - b) div 86400\<bar>"

subsection \<open>The index by rounded amount and type\<close>

type_synonym indice = "rat \<times> string \<rightharpoonup> nat list"

definition indexar_linha :: "nat \<times> cont_row \<Rightarrow> indice \<Rightarrow> indice" where
  "indexar_linha ir m =
     (let k_val = round2 (VALOR_CONTABIL (snd ir));
          k_tipo = TIPO_CONTABIL (snd ir)
      in m((k_val, k_tipo) \<mapsto>
            (case m (k_val, k_tipo) of None \<Rightarrow> [] | Some l \<Rightarrow> l) @ [fst ir]))"

definition cont_by_val_tipo :: "cont_row list \<Rightarrow> indice" where
  "cont_by_val_tipo cont = fold indexar_linha (List.enumerate 0 cont) Map.empty"

definition dict_get :: "indice \<Rightarrow> rat \<times> string \<Rightarrow> nat list" where
  "dict_get m k = (case m k of None \<Rightarrow> [] | Some l \<Rightarrow> l)"

text \<open>
  \<^verbatim>\<open>candidatos_por_valor_tipo\<close>.  The source returns \<^verbatim>\<open>list(set(cand))\<close>; the order in
  which Python enumerates a set is not fixed by the language, so the conversion is the
  parameter \<open>list_set\<close>, of which the theorems assume only that it keeps the elements.
\<close>

definition candidatos_por_valor_tipo ::
  "(nat list \<Rightarrow> nat list) \<Rightarrow> indice \<Rightarrow> rat \<Rightarrow> string \<Rightarrow> rat \<Rightarrow> nat list" where
  "candidatos_por_valor_tipo list_set m v tipo_fin tol =
     (let tipo_cont = (if tipo_fin = ''ENTRADA'' then ''DEBITO'' else ''CREDITO'');
          base = round2 v;
          keys = [(base, tipo_cont)] @
                 (if 1 / 100 \<le> tol
                  then [(round2 (base - 1 / 100), tipo_cont),
                        (round2 (base + 1 / 100), tipo_cont),
                        (round2 (base - 2 / 100), tipo_cont),
                        (round2 (base + 2 / 100), tipo_cont)]
                  else []);
          cand = concat (map (dict_get m) keys)
      in list_set cand)"

subsection \<open>The score\<close>

definition score_match ::
  "string \<Rightarrow> string \<Rightarrow> string \<Rightarrow> string \<Rightarrow> timestamp option \<Rightarrow> timestamp option \<Rightarrow>
   bool \<Rightarrow> string \<Rightarrow> string \<Rightarrow> rat" where
  "score_match txt_norm hist_norm txt_num hist_num data_fin data_cont usar_data id_fin id_cont =
     (if txt_norm = [] \<or> hist_norm = [] then 0
      else
        let cov = min (of_nat (length txt_norm) / of_nat (max (length hist_norm) 1)) 1;
            bonus_inicio = (if prefix txt_norm hist_norm then 2 / 10 else 0);
            bonus_num = (if txt_num \<noteq> [] \<and> hist_num \<noteq> [] \<and> str_in txt_num hist_num
                         then 3 / 10 else 0);
            bonus_id = (if id_fin \<noteq> [] \<and> id_cont \<noteq> [] \<and> 6 \<le> length id_fin \<and> str_in id_fin id_cont
                        then 5 / 10 else 0);
            bonus_data =
              (case (usar_data, data_fin, data_cont) of
                 (True, Some df, Some dc) \<Rightarrow>
                   (if dif_dias df dc = 0 then 5 / 10
                    else if dif_dias df dc = 1 then 3 / 10 else 0)
               | _ \<Rightarrow> 0)
        in cov + bonus_inicio + bonus_num + bonus_id + bonus_data)"

subsection \<open>The matching loop\<close>

text \<open>
  The body of \<^verbatim>\<open>for idx_c in cand_idxs\<close>: the state is \<^verbatim>\<open>(melhor_idx, melhor_score)\<close>,
  every \<^verbatim>\<open>continue\<close> leaves it as it is.
\<close>

definition elegivel ::
  "bool \<Rightarrow> cont_row list \<Rightarrow> nat set \<Rightarrow> rat \<Rightarrow> fin_row \<Rightarrow> timestamp option \<Rightarrow> nat \<Rightarrow> bool" where
  "elegivel usar_data cont usados_cont tolerancia f data_fin idx_c =
     (let txt_norm = TEXTO_FIN_NORM f;
          txt_num = TEXTO_FIN_NUM f;
          id_fin = IDENTIFICADOR_FIN f;
          v_fin = VALOR_FIN f;
          tipo_cont_esperado = (if TIPO_FIN f = ''ENTRADA'' then ''DEBITO'' else ''CREDITO'');
          r = cont ! idx_c;
          v_c = VALOR_CONTABIL r;
          data_cont = (if usar_data then DATA_CONTABIL r else None)
      in if idx_c \<in> usados_cont then False
         else if tolerancia < \<bar>v_fin - v_c\<bar> then False
         else if TIPO_CONTABIL r \<noteq> tipo_cont_esperado then False
         else if (case (usar_data, data_fin, data_cont) of
                    (True, Some df, Some dc) \<Rightarrow> 1 < dif_dias df dc
                  | _ \<Rightarrow> False) then False
         else
           let match_texto = str_in txt_norm (HIST_NORM r);
               match_num = (txt_num \<noteq> [] \<and> HIST_NUM r \<noteq> [] \<and> str_in txt_num (HIST_NUM r));
               match_id = (id_fin \<noteq> [] \<and> IDENTIFICADOR r \<noteq> [] \<and> 6 \<le> length id_fin
                           \<and> str_in id_fin (IDENTIFICADOR r))
           in match_texto \<or> match_num \<or> match_id)"

definition passo_candidato ::
  "bool \<Rightarrow> cont_row list \<Rightarrow> nat set \<Rightarrow> rat \<Rightarrow> fin_row \<Rightarrow> timestamp option \<Rightarrow> nat \<Rightarrow>
   nat option \<times> rat \<Rightarrow> nat option \<times> rat" where
  "passo_candidato usar_data cont usados_cont tolerancia f data_fin idx_c melhor =
     (if \<not> elegivel usar_data cont usados_cont tolerancia f data_fin idx_c then melhor
      else
        let r = cont ! idx_c;
            data_cont = (if usar_data then DATA_CONTABIL r else None);
            sc = score_match (TEXTO_FIN_NORM f) (HIST_NORM r) (TEXTO_FIN_NUM f) (HIST_NUM r)
                   data_fin data_cont usar_data (IDENTIFICADOR_FIN f) (IDENTIFICADOR r)
        in if snd melhor < sc then (Some idx_c, sc) else melhor)"

definition linha_ok :: "nat \<Rightarrow> fin_row \<Rightarrow> timestamp option \<Rightarrow> nat \<Rightarrow> cont_row \<Rightarrow> resultado" where
  "linha_ok i f data_fin j r =
     \<lparr> STATUS = ''OK'',
       DATA_RELATORIO_FINANCEIRO = data_fin,
       TIPO_RELATORIO_FINANCEIRO = TIPO_FIN f,
       TEXTO_RELATORIO_FINANCEIRO = TEXTO_FIN f,
       VALOR_RELATORIO_FINANCEIRO = VALOR_FIN f,
       DATA_RELATORIO_CONTABIL = DATA_CONTABIL r,
       TIPO_RELATORIO_CONTABIL = TIPO_CONTABIL r,
       HISTORICO_RELATORIO_CONTABIL = HIST_TXT r,
       VALOR_RELATORIO_CONTABIL = VALOR_CONTABIL r,
       DIF = \<bar>VALOR_FIN f - VALOR_CONTABIL r\<bar>,
       OBS = ''Conciliado automaticamente'',
       ORIGEM_FIN = Some i,
       ORIGEM_CONT = Some j \<rparr>"

definition linha_divergente_fin :: "nat \<Rightarrow> fin_row \<Rightarrow> timestamp option \<Rightarrow> resultado" where
  "linha_divergente_fin i f data_fin =
     \<lparr> STATUS = ''DIVERGENTE'',
       DATA_RELATORIO_FINANCEIRO = data_fin,
       TIPO_RELATORIO_FINANCEIRO = TIPO_FIN f,
       TEXTO_RELATORIO_FINANCEIRO = TEXTO_FIN f,
       VALOR_RELATORIO_FINANCEIRO = VALOR_FIN f,
       DATA_RELATORIO_CONTABIL = None,
       TIPO_RELATORIO_CONTABIL = '''',
       HISTORICO_RELATORIO_CONTABIL = '''',
       VALOR_RELATORIO_CONTABIL = 0,
       DIF = VALOR_FIN f,
       OBS = ''Nao conciliado'',
       ORIGEM_FIN = Some i,
       ORIGEM_CONT = None \<rparr>"

definition linha_sobra_cont :: "nat \<Rightarrow> cont_row \<Rightarrow> resultado" where
  "linha_sobra_cont j r =
     \<lparr> STATUS = ''DIVERGENTE'',
       DATA_RELATORIO_FINANCEIRO = None,
       TIPO_RELATORIO_FINANCEIRO = '''',
       TEXTO_RELATORIO_FINANCEIRO = '''',
       VALOR_RELATORIO_FINANCEIRO = 0,
       DATA_RELATORIO_CONTABIL = DATA_CONTABIL r,
       TIPO_RELATORIO_CONTABIL = TIPO_CONTABIL r,
       HISTORICO_RELATORIO_CONTABIL = HIST_TXT r,
       VALOR_RELATORIO_CONTABIL = VALOR_CONTABIL r,
       DIF = VALOR_CONTABIL r,
       OBS = ''Sem correspondencia no Financeiro'',
       ORIGEM_FIN = None,
       ORIGEM_CONT = Some j \<rparr>"

text \<open>
  The noise filter at the head of the loop over the financial rows: a row whose
  normalised text and identifier are both shorter than \<^verbatim>\<open>min_len\<close> is passed over by
  \<^verbatim>\<open>continue\<close>, before anything is appended.
\<close>

definition ignorada :: "nat \<Rightarrow> fin_row \<Rightarrow> bool" where
  "ignorada min_len f =
     (length (TEXTO_FIN_NORM f) < min_len \<and> length (IDENTIFICADOR_FIN f) < min_len)"

text \<open>
  The body of \<^verbatim>\<open>for _, f in fin_df.iterrows()\<close>: the state is
  \<^verbatim>\<open>(usados_cont, out)\<close>.
\<close>

definition passo_fin ::
  "(nat list \<Rightarrow> nat list) \<Rightarrow> bool \<Rightarrow> cont_row list \<Rightarrow> indice \<Rightarrow> rat \<Rightarrow> nat \<Rightarrow>
   nat \<times> fin_row \<Rightarrow> nat set \<times> resultado list \<Rightarrow> nat set \<times> resultado list" where
  "passo_fin list_set usar_data cont m tolerancia min_len linha_fin st =
     (let i = fst linha_fin; f = snd linha_fin; usados_cont = fst st; out = snd st
      in if ignorada min_len f then st
         else
           let data_fin = (if usar_data then DATA_FIN f else None);
               cand_idxs = candidatos_por_valor_tipo list_set m (VALOR_FIN f) (TIPO_FIN f) tolerancia;
               melhor = fold (passo_candidato usar_data cont usados_cont tolerancia f data_fin)
                          cand_idxs (None, - 1)
           in case fst melhor of
                Some melhor_idx \<Rightarrow>
                  (insert melhor_idx usados_cont,
                   out @ [linha_ok i f data_fin melhor_idx (cont ! melhor_idx)])
              | None \<Rightarrow> (usados_cont, out @ [linha_divergente_fin i f data_fin]))"

definition sobras_cont :: "cont_row list \<Rightarrow> nat set \<Rightarrow> resultado list" where
  "sobras_cont cont usados_cont =
     map (\<lambda>jr. linha_sobra_cont (fst jr) (snd jr))
       (filter (\<lambda>jr. fst jr \<notin> usados_cont) (List.enumerate 0 cont))"

definition conciliar ::
  "(nat list \<Rightarrow> nat list) \<Rightarrow> fin_df \<Rightarrow> cont_df \<Rightarrow> rat \<Rightarrow> nat \<Rightarrow> resultado list" where
  "conciliar list_set fin cont tolerancia min_len =
     (let usar_data = (fin_tem_data fin \<and> cont_tem_data cont);
          m = cont_by_val_tipo (cont_linhas cont);
          st = fold (passo_fin list_set usar_data (cont_linhas cont) m tolerancia min_len)
                 (List.enumerate 0 (fin_linhas fin)) ({}, [])
      in snd st @ sobras_cont (cont_linhas cont) (fst st))"


text \<open>
  How often a financial position and an accounting position occur in the rows of a
  result, and how often an accounting position occurs in its \<^verbatim>\<open>OK\<close> rows.
\<close>

definition vezes_fin :: "nat \<Rightarrow> resultado list \<Rightarrow> nat" where
  "vezes_fin i out = length (filter (\<lambda>r. ORIGEM_FIN r = Some i) out)"

definition vezes_cont :: "nat \<Rightarrow> resultado list \<Rightarrow> nat" where
  "vezes_cont j out = length (filter (\<lambda>r. ORIGEM_CONT r = Some j) out)"

definition vezes_cont_ok :: "nat \<Rightarrow> resultado list \<Rightarrow> nat" where
  "vezes_cont_ok j out =
     length (filter (\<lambda>r. STATUS r = ''OK'' \<and> ORIGEM_CONT r = Some j) out)"

text \<open>The state of the loop over the financial rows after the rows \<open>fs\<close>.\<close>

definition estado ::
  "(nat list \<Rightarrow> nat list) \<Rightarrow> bool \<Rightarrow> cont_row list \<Rightarrow> rat \<Rightarrow> nat \<Rightarrow> fin_row list \<Rightarrow>
   nat set \<times> resultado list" where
  "estado list_set usar_data cont tol min_len fs =
     fold (passo_fin list_set usar_data cont (cont_by_val_tipo cont) tol min_len)
       (List.enumerate 0 fs) ({}, [])"

text \<open>
  The invariant of the loop over the candidates: the best candidate so far, when there
  is one, is a position in \<open>S\<close> that passed every guard.
\<close>

definition melhor_bom ::
  "bool \<Rightarrow> cont_row list \<Rightarrow> nat set \<Rightarrow> rat \<Rightarrow> fin_row \<Rightarrow> timestamp option \<Rightarrow> nat set \<Rightarrow>
   nat option \<times> rat \<Rightarrow> bool" where
  "melhor_bom usar_data cont usados tol f data_fin S melhor =
     (case fst melhor of None \<Rightarrow> True
      | Some j \<Rightarrow> j \<in> S \<and> elegivel usar_data cont usados tol f data_fin j)"

text \<open>
  The invariant of the loop over the financial rows: the used positions are positions of
  the accounting ledger, each of them is in exactly one row so far, and that row is an
  \<^verbatim>\<open>OK\<close> row; each financial row seen so far is in one row if the noise filter let it
  pass, and in none otherwise.
\<close>

definition inv_conciliar ::
  "cont_row list \<Rightarrow> nat \<Rightarrow> fin_row list \<Rightarrow> nat set \<times> resultado list \<Rightarrow> bool" where
  "inv_conciliar cont min_len fs st =
     (fst st \<subseteq> {..<length cont}
      \<and> (\<forall>j. vezes_cont j (snd st) = (if j \<in> fst st then 1 else 0))
      \<and> (\<forall>j. vezes_cont_ok j (snd st) = (if j \<in> fst st then 1 else 0))
      \<and> (\<forall>i. vezes_fin i (snd st) =
               (if i < length fs \<and> \<not> ignorada min_len (fs ! i) then 1 else 0)))"



section \<open>Text and numbers of Python\<close>

subsection \<open>Characters and \<^verbatim>\<open>strip\<close>\<close>

definition cod :: "char \<Rightarrow> nat" where
  "cod c = of_char c"

definition is_digit :: "char \<Rightarrow> bool" where
  "is_digit c = (48 \<le> cod c \<and> cod c \<le> 57)"

definition is_AZ :: "char \<Rightarrow> bool" where
  "is_AZ c = (65 \<le> cod c \<and> cod c \<le> 90)"

definition is_az :: "char \<Rightarrow> bool" where
  "is_az c = (97 \<le> cod c \<and> cod c \<le> 122)"

text \<open>
  The ASCII characters for which \<^verbatim>\<open>str.isspace\<close> holds: tab, line feed, vertical tab,
  form feed, carriage return, the four separators 28 to 31, and the space.
\<close>

definition is_space :: "char \<Rightarrow> bool" where
  "is_space c = ((9 \<le> cod c \<and> cod c \<le> 13) \<or> (28 \<le> cod c \<and> cod c \<le> 32))"

definition upper_char :: "char \<Rightarrow> char" where
  "upper_char c = (if is_az c then char_of (cod c - 32) else c)"

definition lower_char :: "char \<Rightarrow> char" where
  "lower_char c = (if is_AZ c then char_of (cod c + 32) else c)"

definition upper :: "string \<Rightarrow> string" where
  "upper s = map upper_char s"

definition lower :: "string \<Rightarrow> string" where
  "lower s = map lower_char s"

definition lstrip :: "string \<Rightarrow> string" where
  "lstrip s = dropWhile is_space s"

definition rstrip :: "string \<Rightarrow> string" where
  "rstrip s = rev (dropWhile is_space (rev s))"

definition strip :: "string \<Rightarrow> string" where
  "strip s = rstrip (lstrip s)"

text \<open>\<^verbatim>\<open>s.replace(c, "")\<close> for one character \<open>c\<close>.\<close>

definition sem_char :: "char \<Rightarrow> string \<Rightarrow> string" where
  "sem_char c s = filter (\<lambda>x. x \<noteq> c) s"

text \<open>\<^verbatim>\<open>s.replace(a, b)\<close> for characters \<open>a\<close> and \<open>b\<close>.\<close>

definition troca_char :: "char \<Rightarrow> char \<Rightarrow> string \<Rightarrow> string" where
  "troca_char a b s = map (\<lambda>x. if x = a then b else x) s"

text \<open>
  \<^verbatim>\<open>s.replace('R$', '')\<close>: the occurrences are taken from the left and do not overlap.
\<close>

fun sem_cifrao :: "string \<Rightarrow> string" where
  "sem_cifrao (a # b # cs) =
     (if a = CHR ''R'' \<and> b = CHR ''$'' then sem_cifrao cs else a # sem_cifrao (b # cs))"
| "sem_cifrao cs = cs"

subsection \<open>Numbers\<close>

text \<open>
  A Python \<^verbatim>\<open>float\<close> and a \<^verbatim>\<open>Decimal\<close>.  \<open>DSNaN\<close> is the signalling NaN, which only
  \<^verbatim>\<open>Decimal('sNaN')\<close> builds.
\<close>

datatype pyfloat = FFin rat | FInf | FNegInf | FNaN

datatype decimal = DFin rat | DInf | DNegInf | DNaN | DSNaN

datatype py_error = InvalidOperation | OverflowError | TypeError

definition digit_val :: "char \<Rightarrow> nat" where
  "digit_val c = cod c - 48"

definition digits_val :: "string \<Rightarrow> nat" where
  "digits_val ds = foldl (\<lambda>n c. 10 * n + digit_val c) 0 ds"

text \<open>An optional sign: whether it is a minus, and the rest.\<close>

definition split_sign :: "string \<Rightarrow> bool \<times> string" where
  "split_sign s =
     (case s of
        [] \<Rightarrow> (False, [])
      | c # cs \<Rightarrow> if c = CHR ''-'' then (True, cs)
                  else if c = CHR ''+'' then (False, cs)
                  else (False, s))"

text \<open>The exponent after \<^verbatim>\<open>e\<close> or \<^verbatim>\<open>E\<close>: an optional sign and at least one digit.\<close>

definition parse_exponent :: "string \<Rightarrow> int option" where
  "parse_exponent s =
     (let neg = fst (split_sign s); ds = snd (split_sign s)
      in if ds \<noteq> [] \<and> list_all is_digit ds
         then Some (if neg then - int (digits_val ds) else int (digits_val ds))
         else None)"

definition escala :: "rat \<Rightarrow> int \<Rightarrow> rat" where
  "escala m e = (if 0 \<le> e then m * 10 ^ nat e else m / 10 ^ nat (- e))"

text \<open>
  The unsigned decimal literal that \<^verbatim>\<open>float\<close> and \<^verbatim>\<open>Decimal\<close> both accept: digits, an
  optional point and digits, with a digit on at least one side of the point, and an
  optional exponent; nothing may follow.
\<close>

definition parse_unsigned :: "string \<Rightarrow> rat option" where
  "parse_unsigned s =
     (let ip = takeWhile is_digit s;
          r1 = dropWhile is_digit s;
          tem_ponto = (r1 \<noteq> [] \<and> hd r1 = CHR ''.'');
          fp = (if tem_ponto then takeWhile is_digit (tl r1) else []);
          r2 = (if tem_ponto then dropWhile is_digit (tl r1) else r1)
      in if ip = [] \<and> fp = [] then None
         else
           let m = of_nat (digits_val (ip @ fp)) / 10 ^ length fp
           in case r2 of
                [] \<Rightarrow> Some m
              | c # cs \<Rightarrow>
                  if c = CHR ''e'' \<or> c = CHR ''E''
                  then (case parse_exponent cs of None \<Rightarrow> None | Some e \<Rightarrow> Some (escala m e))
                  else None)"

text \<open>
  \<^verbatim>\<open>float(s)\<close> on a string, \<open>None\<close> for \<^verbatim>\<open>ValueError\<close>.  White space around the text is
  dropped; on ASCII text \<^verbatim>\<open>float\<close> takes for white space the characters 9 to 13 and the
  space only, not the separators 28 to 31.  An underscore is accepted only between two digits (the check CPython makes
  before it removes them).  Then comes an optional sign and one of \<^verbatim>\<open>inf\<close>,
  \<^verbatim>\<open>infinity\<close>, \<^verbatim>\<open>nan\<close> in any case, or a decimal literal.
\<close>

definition is_space_c :: "char \<Rightarrow> bool" where
  "is_space_c c = ((9 \<le> cod c \<and> cod c \<le> 13) \<or> cod c = 32)"

definition strip_c :: "string \<Rightarrow> string" where
  "strip_c s = rev (dropWhile is_space_c (rev (dropWhile is_space_c s)))"

fun underscores_ok :: "char \<Rightarrow> string \<Rightarrow> bool" where
  "underscores_ok prev [] = (prev \<noteq> CHR ''_'')"
| "underscores_ok prev (c # cs) =
     (if c = CHR ''_'' then is_digit prev \<and> underscores_ok c cs
      else (prev = CHR ''_'' \<longrightarrow> is_digit c) \<and> underscores_ok c cs)"

definition py_float :: "string \<Rightarrow> pyfloat option" where
  "py_float s0 =
     (let s = strip_c s0
      in if \<not> underscores_ok (CHR 0x00) s then None
         else
           let t = sem_char (CHR ''_'') s;
               neg = fst (split_sign t);
               u = snd (split_sign t)
           in if lower u = ''inf'' \<or> lower u = ''infinity''
              then Some (if neg then FNegInf else FInf)
              else if lower u = ''nan'' then Some FNaN
              else (case parse_unsigned u of
                      None \<Rightarrow> None
                    | Some q \<Rightarrow> Some (FFin (if neg then - q else q))))"

text \<open>
  \<^verbatim>\<open>Decimal(s)\<close> on a string, \<open>None\<close> for \<^verbatim>\<open>InvalidOperation\<close>.  White space around the
  text is dropped and every underscore is removed.  Then comes an optional sign and one
  of \<^verbatim>\<open>inf\<close>, \<^verbatim>\<open>infinity\<close>, \<^verbatim>\<open>nan\<close> or \<^verbatim>\<open>snan\<close> (the last two with optional digits
  after them) in any case, or a decimal literal.
\<close>

definition py_decimal :: "string \<Rightarrow> decimal option" where
  "py_decimal s0 =
     (let t = sem_char (CHR ''_'') (strip s0);
          neg = fst (split_sign t);
          u = snd (split_sign t)
      in if lower u = ''inf'' \<or> lower u = ''infinity''
         then Some (if neg then DNegInf else DInf)
         else if lower (take 3 u) = ''nan'' \<and> list_all is_digit (drop 3 u) then Some DNaN
         else if lower (take 4 u) = ''snan'' \<and> list_all is_digit (drop 4 u) then Some DSNaN
         else (case parse_unsigned u of
                 None \<Rightarrow> None
               | Some q \<Rightarrow> Some (DFin (if neg then - q else q))))"

text \<open>
  The arithmetic of \<^verbatim>\<open>Decimal\<close> under the default context, where the signal
  \<^verbatim>\<open>InvalidOperation\<close> is trapped: an operation on a signalling NaN, the sum of the two
  infinities, zero times an infinity and an ordering comparison with a NaN raise; a
  quiet NaN propagates.
\<close>

definition dec_neg :: "decimal \<Rightarrow> decimal" where
  "dec_neg a = (case a of DFin x \<Rightarrow> DFin (- x) | DInf \<Rightarrow> DNegInf | DNegInf \<Rightarrow> DInf
                | DNaN \<Rightarrow> DNaN | DSNaN \<Rightarrow> DSNaN)"

definition dec_add :: "decimal \<Rightarrow> decimal \<Rightarrow> py_error + decimal" where
  "dec_add a b =
     (if a = DSNaN \<or> b = DSNaN then Inl InvalidOperation
      else if a = DNaN \<or> b = DNaN then Inr DNaN
      else case (a, b) of
             (DFin x, DFin y) \<Rightarrow> Inr (DFin (x + y))
           | (DInf, DNegInf) \<Rightarrow> Inl InvalidOperation
           | (DNegInf, DInf) \<Rightarrow> Inl InvalidOperation
           | (DInf, _) \<Rightarrow> Inr DInf
           | (_, DInf) \<Rightarrow> Inr DInf
           | (DNegInf, _) \<Rightarrow> Inr DNegInf
           | (_, DNegInf) \<Rightarrow> Inr DNegInf)"

definition dec_sub :: "decimal \<Rightarrow> decimal \<Rightarrow> py_error + decimal" where
  "dec_sub a b = dec_add a (dec_neg b)"

definition dec_mul :: "decimal \<Rightarrow> decimal \<Rightarrow> py_error + decimal" where
  "dec_mul a b =
     (if a = DSNaN \<or> b = DSNaN then Inl InvalidOperation
      else if a = DNaN \<or> b = DNaN then Inr DNaN
      else case (a, b) of
             (DFin x, DFin y) \<Rightarrow> Inr (DFin (x * y))
           | (DFin x, i) \<Rightarrow>
               if x = 0 then Inl InvalidOperation
               else Inr (if 0 < x then i else dec_neg i)
           | (i, DFin y) \<Rightarrow>
               if y = 0 then Inl InvalidOperation
               else Inr (if 0 < y then i else dec_neg i)
           | (i, j) \<Rightarrow> Inr (if i = j then DInf else DNegInf))"

definition dec_abs :: "decimal \<Rightarrow> py_error + decimal" where
  "dec_abs a = (case a of DFin x \<Rightarrow> Inr (DFin \<bar>x\<bar>) | DInf \<Rightarrow> Inr DInf | DNegInf \<Rightarrow> Inr DInf
                | DNaN \<Rightarrow> Inr DNaN | DSNaN \<Rightarrow> Inl InvalidOperation)"

definition dec_less :: "decimal \<Rightarrow> decimal \<Rightarrow> py_error + bool" where
  "dec_less a b =
     (case (a, b) of
        (DFin x, DFin y) \<Rightarrow> Inr (x < y)
      | (DNaN, _) \<Rightarrow> Inl InvalidOperation
      | (DSNaN, _) \<Rightarrow> Inl InvalidOperation
      | (_, DNaN) \<Rightarrow> Inl InvalidOperation
      | (_, DSNaN) \<Rightarrow> Inl InvalidOperation
      | (DNegInf, DNegInf) \<Rightarrow> Inr False
      | (DNegInf, _) \<Rightarrow> Inr True
      | (_, DNegInf) \<Rightarrow> Inr False
      | (DInf, _) \<Rightarrow> Inr False
      | (_, DInf) \<Rightarrow> Inr True)"


subsection \<open>Cell values\<close>

text \<open>
  What a cell of a sheet holds when the parsers receive it: nothing, a boolean, an
  integer, a float, text, a \<^verbatim>\<open>datetime\<close>, or another object, of which only the text
  that \<^verbatim>\<open>str\<close> gives is kept.
\<close>

datatype valor =
    VNone
  | VBool bool
  | VInt int
  | VFloat pyfloat
  | VStr string
  | VDatetime timestamp
  | VOutro string

section \<open>The amount parsers\<close>

subsection \<open>\<^verbatim>\<open>to_float_br\<close>\<close>

text \<open>
  \<^verbatim>\<open>float(n)\<close> for an integer \<open>n\<close> raises \<^verbatim>\<open>OverflowError\<close> when \<open>n\<close> rounds to
  \<open>2 ^ 1024\<close> or beyond.
\<close>

definition float_of_int :: "int \<Rightarrow> py_error + pyfloat" where
  "float_of_int n =
     (if 2 ^ 1024 - 2 ^ 970 \<le> \<bar>n\<bar> then Inl OverflowError else Inr (FFin (of_int n)))"

text \<open>The path of \<^verbatim>\<open>to_float_br\<close> from \<^verbatim>\<open>s = str(x).strip()\<close> on.\<close>

definition to_float_br_str :: "string \<Rightarrow> pyfloat" where
  "to_float_br_str x =
     (let s = strip x
      in if s = [] \<or> lower s = ''nan'' then FFin 0
         else
           let s1 = sem_char (CHR '' '') s;
               s2 = (if CHR '','' \<in> set s1
                     then troca_char (CHR '','') (CHR ''.'') (sem_char (CHR ''.'') s1)
                     else s1)
           in case py_float s2 of None \<Rightarrow> FFin 0 | Some y \<Rightarrow> y)"

text \<open>
  \<^verbatim>\<open>to_float_br\<close>.  A boolean is an \<^verbatim>\<open>int\<close> for \<^verbatim>\<open>isinstance\<close>; the text of a
  \<^verbatim>\<open>datetime\<close> (\<^verbatim>\<open>2024-01-31 00:00:00\<close>) is no number for \<^verbatim>\<open>float\<close>.
\<close>

definition to_float_br :: "valor \<Rightarrow> py_error + pyfloat" where
  "to_float_br x =
     (case x of
        VBool b \<Rightarrow> Inr (FFin (if b then 1 else 0))
      | VInt n \<Rightarrow> float_of_int n
      | VFloat y \<Rightarrow> (if y = FNaN then Inr (FFin 0) else Inr y)
      | VNone \<Rightarrow> Inr (FFin 0)
      | VStr s \<Rightarrow> Inr (to_float_br_str s)
      | VDatetime t \<Rightarrow> Inr (FFin 0)
      | VOutro s \<Rightarrow> Inr (to_float_br_str s))"

subsection \<open>\<^verbatim>\<open>parse_valor\<close>\<close>

text \<open>\<^verbatim>\<open>Decimal(str(x))\<close> for a float \<open>x\<close>.\<close>

definition decimal_of_float :: "pyfloat \<Rightarrow> decimal" where
  "decimal_of_float x =
     (case x of FFin q \<Rightarrow> DFin q | FInf \<Rightarrow> DInf | FNegInf \<Rightarrow> DNegInf | FNaN \<Rightarrow> DNaN)"

text \<open>\<^verbatim>\<open>str(valor).strip()\<close> without the currency sign and the spaces.\<close>

definition limpar_valor :: "string \<Rightarrow> string" where
  "limpar_valor s = sem_char (CHR '' '') (sem_cifrao (strip s))"

text \<open>The replacement of the separators.\<close>

definition separadores :: "string \<Rightarrow> string" where
  "separadores v =
     (if CHR '','' \<in> set v \<and> CHR ''.'' \<in> set v
      then troca_char (CHR '','') (CHR ''.'') (sem_char (CHR ''.'') v)
      else if CHR '','' \<in> set v then troca_char (CHR '','') (CHR ''.'') v
      else v)"

text \<open>
  The \<^verbatim>\<open>try\<close> at the end of \<^verbatim>\<open>parse_valor\<close>: both the conversion and the product are
  inside it, so a failure of either gives zero.
\<close>

definition decimal_vezes :: "string \<Rightarrow> rat \<Rightarrow> decimal" where
  "decimal_vezes valor_str multiplicador =
     (case py_decimal valor_str of
        None \<Rightarrow> DFin 0
      | Some d \<Rightarrow> (case dec_mul d (DFin multiplicador) of Inl e \<Rightarrow> DFin 0 | Inr r \<Rightarrow> r))"

text \<open>The path of \<^verbatim>\<open>parse_valor\<close> from \<^verbatim>\<open>valor_str = str(valor).strip()\<close> on.\<close>

definition parse_valor_str :: "string \<Rightarrow> decimal" where
  "parse_valor_str s =
     (let valor_str = limpar_valor s
      in if valor_str \<noteq> [] \<and> last valor_str = CHR ''D''
         then decimal_vezes (separadores (strip (butlast valor_str))) 1
         else if valor_str \<noteq> [] \<and> last valor_str = CHR ''C''
         then decimal_vezes (separadores (strip (butlast valor_str))) (- 1)
         else decimal_vezes (separadores valor_str) 1)"

text \<open>
  \<^verbatim>\<open>parse_valor\<close>.  A number goes through \<^verbatim>\<open>Decimal(str(valor))\<close>, outside the \<^verbatim>\<open>try\<close>:
  a boolean is an \<^verbatim>\<open>int\<close> for \<^verbatim>\<open>isinstance\<close>, its text is \<^verbatim>\<open>True\<close> or \<^verbatim>\<open>False\<close>, and
  \<^verbatim>\<open>Decimal\<close> raises on it.  The text of a \<^verbatim>\<open>datetime\<close> is no number for \<^verbatim>\<open>Decimal\<close>.
\<close>

definition parse_valor :: "valor \<Rightarrow> py_error + decimal" where
  "parse_valor v =
     (case v of
        VNone \<Rightarrow> Inr (DFin 0)
      | VBool b \<Rightarrow> Inl InvalidOperation
      | VInt n \<Rightarrow> Inr (DFin (of_int n))
      | VFloat x \<Rightarrow> Inr (decimal_of_float x)
      | VStr s \<Rightarrow> (if s = [] then Inr (DFin 0) else Inr (parse_valor_str s))
      | VDatetime t \<Rightarrow> Inr (DFin 0)
      | VOutro s \<Rightarrow> Inr (parse_valor_str s))"

section \<open>The text normalisation\<close>

definition prefixos_comuns :: "string list" where
  "prefixos_comuns =
     [''MED-'', ''FT-'', ''DP-'', ''BOL-'', ''NF-'', ''RC-'', ''FOL-'',
      ''MED'', ''FT'', ''DP'', ''BOL'', ''NF'', ''RC'', ''FOL'']"

text \<open>
  The loop over the prefixes: the first one that the upper-cased text starts with is cut
  off the text, and the loop ends.
\<close>

fun tira_prefixo :: "string list \<Rightarrow> string \<Rightarrow> string" where
  "tira_prefixo [] txt = txt"
| "tira_prefixo (p # ps) txt =
     (if prefix p (upper txt) then drop (length p) txt else tira_prefixo ps txt)"

text \<open>
  \<^verbatim>\<open>re.sub(pattern + "$", "", txt)\<close> for a pattern that \<open>tira\<close> recognises on the reversed
  text: \<^verbatim>\<open>$\<close> matches at the end of the text and also before a line feed that ends it.
\<close>

definition sub_no_fim :: "(string \<Rightarrow> string option) \<Rightarrow> string \<Rightarrow> string" where
  "sub_no_fim tira s =
     (case tira (rev s) of
        Some t \<Rightarrow> rev t
      | None \<Rightarrow>
          (case rev s of
             [] \<Rightarrow> s
           | nl # r \<Rightarrow>
               if nl = CHR 0x0A
               then (case tira r of Some t \<Rightarrow> rev t @ [nl] | None \<Rightarrow> s)
               else s))"

text \<open>\<^verbatim>\<open>-[A-Z]\<close> read from the end: a capital letter, then the hyphen.\<close>

definition tira_letra :: "string \<Rightarrow> string option" where
  "tira_letra r =
     (case r of
        l # h # t \<Rightarrow> if is_AZ l \<and> h = CHR ''-'' then Some t else None
      | _ \<Rightarrow> None)"

text \<open>\<^verbatim>\<open>-\d{1,2}\<close> read from the end: one or two digits, then the hyphen.\<close>

definition tira_digitos :: "string \<Rightarrow> string option" where
  "tira_digitos r =
     (case r of
        d1 # h # t \<Rightarrow>
          if is_digit d1 \<and> h = CHR ''-'' then Some t
          else (case t of
                  h2 # t2 \<Rightarrow> if is_digit d1 \<and> is_digit h \<and> h2 = CHR ''-'' then Some t2 else None
                | [] \<Rightarrow> None)
      | _ \<Rightarrow> None)"

definition limpar_prefixo :: "string \<Rightarrow> string" where
  "limpar_prefixo txt =
     (if txt = [] then []
      else sub_no_fim tira_digitos
             (sub_no_fim tira_letra (tira_prefixo prefixos_comuns (strip txt))))"

definition normalizar_texto :: "string \<Rightarrow> string" where
  "normalizar_texto txt =
     filter (\<lambda>c. is_AZ c \<or> is_digit c) (strip (upper (limpar_prefixo txt)))"


section \<open>The invoice/receipt engine: \<^verbatim>\<open>ConciliacaoCliente\<close>\<close>

subsection \<open>The state of the object\<close>

text \<open>
  One entry of \<^verbatim>\<open>self.lancamentos\<close>, one bucket of \<^verbatim>\<open>self.nfs\<close> or
  \<^verbatim>\<open>self.recebimentos\<close>, one entry of \<^verbatim>\<open>self.matches\<close>, and the attributes of the
  object that the engine reads and writes.  A dictionary is the list of its items in
  insertion order, which is the order in which Python iterates over it.
\<close>

record lancamento =
  linha :: nat
  data :: valor
  lote :: string
  historico :: string
  debito :: decimal
  credito :: decimal
  saldo_atual :: string

record documento =
  numero :: string
  total_debito :: decimal
  total_credito :: decimal
  valor_liquido :: decimal
  doc_lancamentos :: "lancamento list"

record par =
  nf_numero :: string
  nf_valor :: decimal
  rec_numero :: string
  rec_valor :: decimal
  diferenca :: decimal

type_synonym documentos = "(string \<times> documento) list"

record sistema =
  saldo_inicial :: decimal
  data_inicio :: "timestamp option"
  data_fim :: "timestamp option"
  lancamentos :: "lancamento list"
  nfs :: documentos
  recebimentos :: documentos
  matches :: "par list"
  nao_encontrados_nf :: "documento list"
  nao_encontrados_rec :: "documento list"

subsection \<open>\<^verbatim>\<open>esta_no_intervalo\<close>\<close>



subsection \<open>\<^verbatim>\<open>processar_lancamentos\<close>\<close>








text \<open>A loop whose body can raise: the first exception ends it.\<close>

fun fold_err :: "('a \<Rightarrow> 's \<Rightarrow> py_error + 's) \<Rightarrow> 'a list \<Rightarrow> 's \<Rightarrow> py_error + 's" where
  "fold_err f [] s = Inr s"
| "fold_err f (x # xs) s = (case f x s of Inl e \<Rightarrow> Inl e | Inr s' \<Rightarrow> fold_err f xs s')"


subsection \<open>\<^verbatim>\<open>realizar_matching\<close>\<close>

text \<open>
  The body of the inner loop: the state is
  \<^verbatim>\<open>(self.matches, nfs_matcheadas, recs_matcheados)\<close>.
\<close>

definition passo_par ::
  "string \<times> documento \<Rightarrow> string \<times> documento \<Rightarrow> par list \<times> string set \<times> string set \<Rightarrow>
   py_error + par list \<times> string set \<times> string set" where
  "passo_par nf rec st =
     (case dec_sub (valor_liquido (snd nf)) (valor_liquido (snd rec)) of
        Inl e \<Rightarrow> Inl e
      | Inr d \<Rightarrow>
          (case dec_abs d of
             Inl e \<Rightarrow> Inl e
           | Inr a \<Rightarrow>
               (case dec_less a (DFin (1 / 100)) of
                  Inl e \<Rightarrow> Inl e
                | Inr False \<Rightarrow> Inr st
                | Inr True \<Rightarrow>
                    Inr (fst st @ [\<lparr> nf_numero = fst nf, nf_valor = valor_liquido (snd nf),
                                    rec_numero = fst rec, rec_valor = valor_liquido (snd rec),
                                    diferenca = d \<rparr>],
                         insert (fst nf) (fst (snd st)),
                         insert (fst rec) (snd (snd st))))))"

definition realizar_matching :: "sistema \<Rightarrow> py_error + sistema" where
  "realizar_matching sis =
     (case fold_err (\<lambda>nf. fold_err (passo_par nf) (recebimentos sis)) (nfs sis)
             (matches sis, {}, {}) of
        Inl e \<Rightarrow> Inl e
      | Inr st \<Rightarrow>
          Inr (sis\<lparr> matches := fst st,
                    nao_encontrados_nf :=
                      nao_encontrados_nf sis @
                        map snd (filter (\<lambda>kd. fst kd \<notin> fst (snd st)) (nfs sis)),
                    nao_encontrados_rec :=
                      nao_encontrados_rec sis @
                        map snd (filter (\<lambda>kd. fst kd \<notin> snd (snd st)) (recebimentos sis)) \<rparr>))"

section \<open>Notions used in the statements and proofs\<close>

text \<open>The characters that \<^verbatim>\<open>normalizar_texto\<close> keeps.\<close>

definition alnum :: "char \<Rightarrow> bool" where
  "alnum c = (is_AZ c \<or> is_digit c)"

text \<open>A text of white space only.\<close>

definition brancos :: "string \<Rightarrow> bool" where
  "brancos w = (\<forall>c \<in> set w. is_space c)"

text \<open>A text of decimal digits only, and the number written as \<open>a\<close>, point, \<open>b\<close>.\<close>

definition digitos :: "string \<Rightarrow> bool" where
  "digitos ds = list_all is_digit ds"

definition decimal_com_ponto :: "string \<Rightarrow> string \<Rightarrow> rat" where
  "decimal_com_ponto a b = of_nat (digits_val (a @ b)) / 10 ^ length b"

text \<open>A digit or the point.\<close>

definition simples :: "char \<Rightarrow> bool" where
  "simples c = (is_digit c \<or> c = CHR ''.'')"



text \<open>The buckets with a finite net value, and that value.\<close>

definition finitos :: "documentos \<Rightarrow> bool" where
  "finitos ds = (\<forall>kd \<in> set ds. \<exists>q. valor_liquido (snd kd) = DFin q)"

definition valor :: "string \<times> documento \<Rightarrow> rat" where
  "valor kd = (case valor_liquido (snd kd) of DFin q \<Rightarrow> q | _ \<Rightarrow> 0)"

text \<open>
  The test of \<^verbatim>\<open>realizar_matching\<close> on finite values, the entry it appends, and the
  entries of one invoice: one for every receipt that passes the test, in the order of
  the receipts.
\<close>

definition casa :: "string \<times> documento \<Rightarrow> string \<times> documento \<Rightarrow> bool" where
  "casa nf rec = (\<bar>valor nf - valor rec\<bar> < 1 / 100)"

definition par_de :: "string \<times> documento \<Rightarrow> string \<times> documento \<Rightarrow> par" where
  "par_de nf rec =
     \<lparr> nf_numero = fst nf, nf_valor = valor_liquido (snd nf),
       rec_numero = fst rec, rec_valor = valor_liquido (snd rec),
       diferenca = DFin (valor nf - valor rec) \<rparr>"

definition pares_de :: "documentos \<Rightarrow> string \<times> documento \<Rightarrow> par list" where
  "pares_de recs nf = map (par_de nf) (filter (casa nf) recs)"

text \<open>The invoice and receipt numbers of the entries of \<^verbatim>\<open>self.matches\<close>.\<close>

definition chave :: "par \<Rightarrow> string \<times> string" where
  "chave m = (nf_numero m, rec_numero m)"

section \<open>Concrete inputs\<close>

text \<open>
  The scenario of the specification: the payment \<^verbatim>\<open>FT-12345\<close> of 1500.00 on the
  financial side and the entry \<^verbatim>\<open>PAGTO FT12345 FORNECEDOR\<close> of 1500.00 on the
  accounting side, with the columns that the two readers derive from the texts.
\<close>

definition fin_ft :: fin_row where
  "fin_ft = \<lparr> TEXTO_FIN = ''FT-12345'', TEXTO_FIN_NORM = ''12345'', TEXTO_FIN_NUM = ''12345'',
              IDENTIFICADOR_FIN = ''12345'', VALOR_FIN = 1500, TIPO_FIN = ''SAIDA'',
              DATA_FIN = None \<rparr>"

definition cont_pagto :: cont_row where
  "cont_pagto = \<lparr> HIST_TXT = ''PAGTO FT12345 FORNECEDOR'',
                  HIST_NORM = ''PAGTOFT12345FORNECEDOR'', HIST_NUM = ''12345'',
                  IDENTIFICADOR = ''FT12345'', VALOR_CONTABIL = 1500,
                  TIPO_CONTABIL = ''CREDITO'', DATA_CONTABIL = None \<rparr>"

text \<open>
  A financial row that the reader keeps (its amount is not zero and its normalised text
  is not empty) and whose normalised text and identifier have two characters.
\<close>

definition fin_curta :: fin_row where
  "fin_curta = \<lparr> TEXTO_FIN = ''AB'', TEXTO_FIN_NORM = ''AB'', TEXTO_FIN_NUM = '''',
                 IDENTIFICADOR_FIN = ''AB'', VALOR_FIN = 10, TIPO_FIN = ''ENTRADA'',
                 DATA_FIN = None \<rparr>"

definition df_fin :: "fin_row list \<Rightarrow> fin_df" where
  "df_fin rows = \<lparr> fin_tem_data = False, fin_linhas = rows \<rparr>"

definition df_cont :: "cont_row list \<Rightarrow> cont_df" where
  "df_cont rows = \<lparr> cont_tem_data = False, cont_linhas = rows \<rparr>"






text \<open>
  A bucket with the number \<open>n\<close> whose lines add up to the debit \<open>d\<close> and the credit \<open>c\<close>,
  as an invoice and as a receipt, and an object that holds the given buckets and
  nothing else.
\<close>

definition nf_ex :: "string \<Rightarrow> rat \<Rightarrow> rat \<Rightarrow> string \<times> documento" where
  "nf_ex n d c =
     (n, \<lparr> numero = n, total_debito = DFin d, total_credito = DFin c,
            valor_liquido = DFin (d - c), doc_lancamentos = [] \<rparr>)"

definition rec_ex :: "string \<Rightarrow> rat \<Rightarrow> rat \<Rightarrow> string \<times> documento" where
  "rec_ex n d c =
     (n, \<lparr> numero = n, total_debito = DFin d, total_credito = DFin c,
            valor_liquido = DFin (c - d), doc_lancamentos = [] \<rparr>)"

definition buckets_ex :: "documentos \<Rightarrow> documentos \<Rightarrow> sistema" where
  "buckets_ex ns rs =
     \<lparr> saldo_inicial = DFin 1000, data_inicio = None, data_fim = None, lancamentos = [],
       nfs = ns, recebimentos = rs, matches = [], nao_encontrados_nf = [],
       nao_encontrados_rec = [] \<rparr>"

section \<open>Properties of \<^verbatim>\<open>conciliar\<close>\<close>

subsection \<open>The candidates are positions of the accounting ledger\<close>

lemma indexar_linha_range:
  assumes "\<And>k l. m k = Some l \<Longrightarrow> set l \<subseteq> A" and "fst ir \<in> A"
    and "indexar_linha ir m k = Some l"
  shows "set l \<subseteq> A"
proof (cases "k = (round2 (VALOR_CONTABIL (snd ir)), TIPO_CONTABIL (snd ir))")
  case True
  show ?thesis
  proof (cases "m k")
    case None
    then have "l = [fst ir]" using assms(3) True by (simp add: indexar_linha_def Let_def)
    then show ?thesis using assms(2) by simp
  next
    case (Some l0)
    then have "set l0 \<subseteq> A" using assms(1) by blast
    moreover have "l = l0 @ [fst ir]"
      using assms(3) True Some by (simp add: indexar_linha_def Let_def)
    ultimately show ?thesis using assms(2) by simp
  qed
next
  case False
  then have "m k = Some l" using assms(3) by (simp add: indexar_linha_def Let_def)
  then show ?thesis using assms(1) by blast
qed

lemma fold_indexar_linha_range:
  assumes "\<And>k l. m k = Some l \<Longrightarrow> set l \<subseteq> A" and "fst ` set xs \<subseteq> A"
    and "fold indexar_linha xs m k = Some l"
  shows "set l \<subseteq> A"
  using assms
proof (induction xs arbitrary: m k l)
  case Nil
  then show ?case by simp
next
  case (Cons x xs)
  have "\<And>k l. indexar_linha x m k = Some l \<Longrightarrow> set l \<subseteq> A"
    using indexar_linha_range[of m A x] Cons.prems(1,2) by simp
  then show ?case using Cons.IH[of "indexar_linha x m" k l] Cons.prems by simp
qed

lemma fst_set_enumerate: "fst ` set (List.enumerate n xs) = {n..<n + length xs}"
  by (induction xs arbitrary: n) (auto simp: image_iff)

lemma dict_get_range: "set (dict_get (cont_by_val_tipo cont) k) \<subseteq> {..<length cont}"
proof (cases "cont_by_val_tipo cont k")
  case None
  then show ?thesis by (simp add: dict_get_def)
next
  case (Some l)
  have "set l \<subseteq> {..<length cont}"
  proof (rule fold_indexar_linha_range[of Map.empty _ "List.enumerate 0 cont" k l])
    show "fst ` set (List.enumerate 0 cont) \<subseteq> {..<length cont}"
      by (auto simp: fst_set_enumerate)
    show "fold indexar_linha (List.enumerate 0 cont) Map.empty k = Some l"
      using Some by (simp add: cont_by_val_tipo_def)
  qed simp
  then show ?thesis using Some by (simp add: dict_get_def)
qed

lemma candidatos_range:
  assumes "\<And>xs. set (list_set xs) = set xs"
  shows "set (candidatos_por_valor_tipo list_set (cont_by_val_tipo cont) v t tol) \<subseteq> {..<length cont}"
  using dict_get_range[of cont]
  by (auto simp: candidatos_por_valor_tipo_def Let_def assms)

lemma passo_candidato_bom:
  assumes "melhor_bom usar_data cont usados tol f data_fin S melhor" and "j \<in> S"
  shows "melhor_bom usar_data cont usados tol f data_fin S
           (passo_candidato usar_data cont usados tol f data_fin j melhor)"
  using assms by (auto simp: melhor_bom_def passo_candidato_def Let_def)

lemma fold_passo_candidato_bom:
  assumes "melhor_bom usar_data cont usados tol f data_fin S melhor" and "set cs \<subseteq> S"
  shows "melhor_bom usar_data cont usados tol f data_fin S
           (fold (passo_candidato usar_data cont usados tol f data_fin) cs melhor)"
  using assms
proof (induction cs arbitrary: melhor)
  case Nil
  then show ?case by simp
next
  case (Cons c cs)
  have "melhor_bom usar_data cont usados tol f data_fin S
          (passo_candidato usar_data cont usados tol f data_fin c melhor)"
    using passo_candidato_bom[OF Cons.prems(1), of c] Cons.prems(2) by simp
  then show ?case using Cons.IH Cons.prems(2) by simp
qed



lemma estado_Nil: "estado list_set ud cont tol min_len [] = ({}, [])"
  by (simp add: estado_def)

lemma estado_snoc:
  "estado list_set ud cont tol min_len (fs @ [f]) =
     passo_fin list_set ud cont (cont_by_val_tipo cont) tol min_len (length fs, f)
       (estado list_set ud cont tol min_len fs)"
  by (simp add: estado_def enumerate_append_eq)

lemma passo_fin_cases:
  assumes keeps: "\<And>xs. set (list_set xs) = set xs"
  defines "d \<equiv> (\<lambda>ud f. if ud then DATA_FIN f else None)"
  shows "(ignorada min_len f \<and>
            passo_fin list_set ud cont (cont_by_val_tipo cont) tol min_len (i, f) st = st)
       \<or> (\<not> ignorada min_len f \<and>
            passo_fin list_set ud cont (cont_by_val_tipo cont) tol min_len (i, f) st =
              (fst st, snd st @ [linha_divergente_fin i f (d ud f)]))
       \<or> (\<not> ignorada min_len f \<and>
            (\<exists>j. j < length cont \<and> elegivel ud cont (fst st) tol f (d ud f) j \<and>
               passo_fin list_set ud cont (cont_by_val_tipo cont) tol min_len (i, f) st =
                 (insert j (fst st), snd st @ [linha_ok i f (d ud f) j (cont ! j)])))"
proof (cases "ignorada min_len f")
  case True
  then show ?thesis by (simp add: passo_fin_def)
next
  case False
  let ?cs = "candidatos_por_valor_tipo list_set (cont_by_val_tipo cont) (VALOR_FIN f) (TIPO_FIN f) tol"
  let ?m = "fold (passo_candidato ud cont (fst st) tol f (d ud f)) ?cs (None, - 1)"
  have bom: "melhor_bom ud cont (fst st) tol f (d ud f) {..<length cont} ?m"
    by (rule fold_passo_candidato_bom) (simp_all add: melhor_bom_def candidatos_range[OF keeps])
  show ?thesis
  proof (cases "fst ?m")
    case None
    then show ?thesis using False by (simp add: passo_fin_def Let_def d_def)
  next
    case (Some j)
    then have "j < length cont" "elegivel ud cont (fst st) tol f (d ud f) j"
      using bom by (simp_all add: melhor_bom_def)
    moreover have "passo_fin list_set ud cont (cont_by_val_tipo cont) tol min_len (i, f) st =
                 (insert j (fst st), snd st @ [linha_ok i f (d ud f) j (cont ! j)])"
      using False Some by (simp add: passo_fin_def Let_def d_def)
    ultimately show ?thesis using False by blast
  qed
qed

lemma elegivel_nao_usado: "elegivel ud cont usados tol f d j \<Longrightarrow> j \<notin> usados"
  by (auto simp: elegivel_def Let_def split: if_splits)



lemma vezes_snoc:
  "vezes_fin i (out @ [r]) = vezes_fin i out + (if ORIGEM_FIN r = Some i then 1 else 0)"
  "vezes_cont j (out @ [r]) = vezes_cont j out + (if ORIGEM_CONT r = Some j then 1 else 0)"
  "vezes_cont_ok j (out @ [r]) =
     vezes_cont_ok j out + (if STATUS r = ''OK'' \<and> ORIGEM_CONT r = Some j then 1 else 0)"
  by (simp_all add: vezes_fin_def vezes_cont_def vezes_cont_ok_def)

lemma inv_conciliar_estado:
  assumes keeps: "\<And>xs. set (list_set xs) = set xs"
  shows "inv_conciliar cont min_len fs (estado list_set ud cont tol min_len fs)"
proof (induction fs rule: rev_induct)
  case Nil
  show ?case
    by (simp add: estado_Nil inv_conciliar_def vezes_fin_def vezes_cont_def vezes_cont_ok_def)
next
  case (snoc f fs)
  let ?st = "estado list_set ud cont tol min_len fs"
  let ?d = "if ud then DATA_FIN f else None"
  have nth: "\<And>i. i < length fs \<Longrightarrow> (fs @ [f]) ! i = fs ! i"
    by (simp add: nth_append)
  from passo_fin_cases[OF keeps, of min_len f ud cont tol "length fs" ?st]
  consider
    (skip) "ignorada min_len f"
      "estado list_set ud cont tol min_len (fs @ [f]) = ?st"
  | (div) "\<not> ignorada min_len f"
      "estado list_set ud cont tol min_len (fs @ [f]) =
         (fst ?st, snd ?st @ [linha_divergente_fin (length fs) f ?d])"
  | (ok) j where "\<not> ignorada min_len f" "j < length cont"
      "elegivel ud cont (fst ?st) tol f ?d j"
      "estado list_set ud cont tol min_len (fs @ [f]) =
         (insert j (fst ?st), snd ?st @ [linha_ok (length fs) f ?d j (cont ! j)])"
    unfolding estado_snoc by blast
  then show ?case
  proof cases
    case skip
    have "\<And>i. (i < length (fs @ [f]) \<and> \<not> ignorada min_len ((fs @ [f]) ! i))
             = (i < length fs \<and> \<not> ignorada min_len (fs ! i))"
      using skip(1) by (auto simp: nth_append less_Suc_eq)
    then show ?thesis using snoc.IH skip(2) by (simp add: inv_conciliar_def)
  next
    case div
    have "\<And>i. (i < length (fs @ [f]) \<and> \<not> ignorada min_len ((fs @ [f]) ! i))
             = (i = length fs \<or> (i < length fs \<and> \<not> ignorada min_len (fs ! i)))"
      using div(1) by (auto simp: nth_append less_Suc_eq)
    then show ?thesis using snoc.IH div(2)
      by (auto simp: inv_conciliar_def vezes_snoc linha_divergente_fin_def)
  next
    case ok
    have fin: "\<And>i. (i < length (fs @ [f]) \<and> \<not> ignorada min_len ((fs @ [f]) ! i))
             = (i = length fs \<or> (i < length fs \<and> \<not> ignorada min_len (fs ! i)))"
      using ok(1) by (auto simp: nth_append less_Suc_eq)
    have nu: "j \<notin> fst ?st" using ok(3) by (rule elegivel_nao_usado)
    show ?thesis using snoc.IH ok(2,4) nu fin
      by (auto simp: inv_conciliar_def vezes_snoc linha_ok_def)
  qed
qed


lemma conciliar_estado:
  "conciliar list_set fin cont tol min_len =
     (let st = estado list_set (fin_tem_data fin \<and> cont_tem_data cont) (cont_linhas cont) tol min_len
                 (fin_linhas fin)
      in snd st @ sobras_cont (cont_linhas cont) (fst st))"
  by (simp add: conciliar_def estado_def Let_def)

subsection \<open>The result on the concrete inputs\<close>

lemmas conciliar_defs = conciliar_def passo_fin_def passo_candidato_def elegivel_def
  score_match_def candidatos_por_valor_tipo_def dict_get_def cont_by_val_tipo_def
  indexar_linha_def sobras_cont_def ignorada_def round2_def round_half_even_def
  dif_dias_def linha_ok_def linha_divergente_fin_def linha_sobra_cont_def
  df_fin_def df_cont_def fin_ft_def cont_pagto_def fin_curta_def


lemma conciliar_curta:
  "conciliar remdups (df_fin [fin_curta]) (df_cont []) (1 / 100) 3 = []"
  by (simp add: conciliar_defs Let_def enumerate_eq_zip)

lemma conciliar_ambas:
  "conciliar remdups (df_fin [fin_curta, fin_ft]) (df_cont [cont_pagto]) (1 / 100) 3 =
     [linha_ok 1 fin_ft None 0 cont_pagto]"
  by (simp add: conciliar_defs Let_def enumerate_eq_zip)

subsection \<open>Counting the rows of a result\<close>

lemma vezes_append:
  "vezes_fin i (a @ b) = vezes_fin i a + vezes_fin i b"
  "vezes_cont j (a @ b) = vezes_cont j a + vezes_cont j b"
  "vezes_cont_ok j (a @ b) = vezes_cont_ok j a + vezes_cont_ok j b"
  by (simp_all add: vezes_fin_def vezes_cont_def vezes_cont_ok_def)

lemma filter_enumerate_um:
  "length (filter (\<lambda>jr. fst jr = j \<and> fst jr \<notin> U) (List.enumerate n xs)) =
     (if n \<le> j \<and> j < n + length xs \<and> j \<notin> U then 1 else 0)"
proof (induction xs arbitrary: n)
  case Nil
  then show ?case by simp
next
  case (Cons x xs)
  have "length (filter (\<lambda>jr. fst jr = j \<and> fst jr \<notin> U) (List.enumerate (Suc n) xs)) =
          (if Suc n \<le> j \<and> j < Suc n + length xs \<and> j \<notin> U then 1 else 0)"
    by (rule Cons.IH)
  then show ?case by (auto split: if_splits)
qed

lemma vezes_sobras:
  "vezes_fin i (sobras_cont cont U) = 0"
  "vezes_cont_ok j (sobras_cont cont U) = 0"
  "vezes_cont j (sobras_cont cont U) = (if j < length cont \<and> j \<notin> U then 1 else 0)"
proof -
  show "vezes_fin i (sobras_cont cont U) = 0"
    by (simp add: vezes_fin_def sobras_cont_def linha_sobra_cont_def filter_map o_def)
  show "vezes_cont_ok j (sobras_cont cont U) = 0"
    by (simp add: vezes_cont_ok_def sobras_cont_def linha_sobra_cont_def filter_map o_def)
  have "vezes_cont j (sobras_cont cont U) =
          length (filter (\<lambda>jr. fst jr = j \<and> fst jr \<notin> U) (List.enumerate 0 cont))"
    by (simp add: vezes_cont_def sobras_cont_def linha_sobra_cont_def filter_map o_def conj_commute)
  then show "vezes_cont j (sobras_cont cont U) = (if j < length cont \<and> j \<notin> U then 1 else 0)"
    by (simp add: filter_enumerate_um)
qed


lemma conciliar_vezes_cont:
  assumes keeps: "\<And>xs. set (list_set xs) = set xs"
  shows "vezes_cont j (conciliar list_set fin cont tol min_len) =
           (if j < length (cont_linhas cont) then 1 else 0)"
proof -
  let ?st = "estado list_set (fin_tem_data fin \<and> cont_tem_data cont) (cont_linhas cont) tol min_len
               (fin_linhas fin)"
  have inv: "inv_conciliar (cont_linhas cont) min_len (fin_linhas fin) ?st"
    by (rule inv_conciliar_estado[OF keeps])
  then have "fst ?st \<subseteq> {..<length (cont_linhas cont)}"
    and "vezes_cont j (snd ?st) = (if j \<in> fst ?st then 1 else 0)"
    by (simp_all add: inv_conciliar_def)
  then show ?thesis
    by (auto simp: conciliar_estado Let_def vezes_append vezes_sobras)
qed

lemma conciliar_vezes_cont_ok:
  assumes keeps: "\<And>xs. set (list_set xs) = set xs"
  shows "vezes_cont_ok j (conciliar list_set fin cont tol min_len) \<le> 1"
proof -
  let ?st = "estado list_set (fin_tem_data fin \<and> cont_tem_data cont) (cont_linhas cont) tol min_len
               (fin_linhas fin)"
  have inv: "inv_conciliar (cont_linhas cont) min_len (fin_linhas fin) ?st"
    by (rule inv_conciliar_estado[OF keeps])
  then have "vezes_cont_ok j (snd ?st) = (if j \<in> fst ?st then 1 else 0)"
    by (simp add: inv_conciliar_def)
  then show ?thesis
    by (simp add: conciliar_estado Let_def vezes_append vezes_sobras)
qed

lemma conciliar_vezes_fin:
  assumes keeps: "\<And>xs. set (list_set xs) = set xs"
  shows "vezes_fin i (conciliar list_set fin cont tol min_len) =
           (if i < length (fin_linhas fin) \<and> \<not> ignorada min_len (fin_linhas fin ! i) then 1 else 0)"
proof -
  let ?st = "estado list_set (fin_tem_data fin \<and> cont_tem_data cont) (cont_linhas cont) tol min_len
               (fin_linhas fin)"
  have inv: "inv_conciliar (cont_linhas cont) min_len (fin_linhas fin) ?st"
    by (rule inv_conciliar_estado[OF keeps])
  then have "vezes_fin i (snd ?st) =
               (if i < length (fin_linhas fin) \<and> \<not> ignorada min_len (fin_linhas fin ! i) then 1 else 0)"
    by (simp add: inv_conciliar_def)
  then show ?thesis
    by (simp add: conciliar_estado Let_def vezes_append vezes_sobras)
qed


subsection \<open>Rows with status \<^verbatim>\<open>OK\<close>\<close>



subsection \<open>Coverage\<close>

text \<open>
  Claim C1, as amended.  Every accounting row occurs in exactly one row of the result of
  \<^verbatim>\<open>conciliar\<close>.  Every financial row whose normalised text or identifier has at least
  \<^verbatim>\<open>min_len\<close> characters occurs in exactly one row of the result; a financial row whose
  normalised text and identifier are both shorter than \<^verbatim>\<open>min_len\<close> occurs in none.
\<close>
theorem conciliar_cobertura:
  assumes "\<And>xs. set (list_set xs) = set xs"
  shows "(\<forall>j < length (cont_linhas cont).
            vezes_cont j (conciliar list_set fin cont tolerancia min_len) = 1)
       \<and> (\<forall>i < length (fin_linhas fin).
            vezes_fin i (conciliar list_set fin cont tolerancia min_len) =
              (if ignorada min_len (fin_linhas fin ! i) then 0 else 1))"
  by (simp add: conciliar_vezes_cont[OF assms] conciliar_vezes_fin[OF assms])

theorem conciliar_cobertura_witness:
  "vezes_cont 0 (conciliar remdups (df_fin [fin_curta, fin_ft]) (df_cont [cont_pagto]) (1 / 100) 3) = 1
   \<and> vezes_fin 0 (conciliar remdups (df_fin [fin_curta, fin_ft]) (df_cont [cont_pagto]) (1 / 100) 3) = 0
   \<and> vezes_fin 1 (conciliar remdups (df_fin [fin_curta, fin_ft]) (df_cont [cont_pagto]) (1 / 100) 3) = 1"
proof -
  have h1: "\<And>xs::nat list. set (remdups xs) = set xs" by simp
  note t = conciliar_cobertura[of remdups "df_cont [cont_pagto]" "df_fin [fin_curta, fin_ft]" "1 / 100" 3,
      OF h1]
  have a: "vezes_cont 0 (conciliar remdups (df_fin [fin_curta, fin_ft]) (df_cont [cont_pagto]) (1 / 100) 3) = 1"
    using t[THEN conjunct1, rule_format, of 0] by (simp add: df_cont_def)
  have b: "vezes_fin 0 (conciliar remdups (df_fin [fin_curta, fin_ft]) (df_cont [cont_pagto]) (1 / 100) 3) = 0"
    using t[THEN conjunct2, rule_format, of 0] by (simp add: df_fin_def ignorada_def fin_curta_def)
  have c: "vezes_fin 1 (conciliar remdups (df_fin [fin_curta, fin_ft]) (df_cont [cont_pagto]) (1 / 100) 3) = 1"
    using t[THEN conjunct2, rule_format, of 1] by (simp add: df_fin_def ignorada_def fin_ft_def)
  from a b c show ?thesis by simp
qed

text \<open>
  Claim C1 as it was stated fails: the financial ledger with the single row \<open>fin_curta\<close>,
  which the reader keeps, and an empty accounting ledger give an empty result for
  \<^verbatim>\<open>min_len = 3\<close>, so that the row occurs in no row of the result.
\<close>

theorem conciliar_linha_curta_sem_resultado:
  "conciliar remdups (df_fin [fin_curta]) (df_cont []) (1 / 100) 3 = []
   \<and> vezes_fin 0 (conciliar remdups (df_fin [fin_curta]) (df_cont []) (1 / 100) 3) = 0"
  by (simp add: conciliar_curta vezes_fin_def)

section \<open>Properties of \<^verbatim>\<open>normalizar_texto\<close>\<close>

lemmas texto_defs = cod_def is_digit_def is_AZ_def is_az_def is_space_def upper_char_def
  lower_char_def upper_def lower_def lstrip_def rstrip_def strip_def sem_char_def troca_char_def
  is_space_c_def strip_c_def

lemmas normalizar_defs = normalizar_texto_def limpar_prefixo_def prefixos_comuns_def
  sub_no_fim_def tira_letra_def tira_digitos_def

lemma normalizar_nf_ft: "normalizar_texto ''NF-FT12345'' = ''FT12345''"
  by (simp add: normalizar_defs texto_defs)

lemma normalizar_ft_sem_hifen: "normalizar_texto ''FT12345'' = ''12345''"
  by (simp add: normalizar_defs texto_defs)

lemma normalizar_ft: "normalizar_texto ''FT-12345'' = ''12345''"
  by (simp add: normalizar_defs texto_defs)

lemma alnum_normalizar: "c \<in> set (normalizar_texto x) \<Longrightarrow> alnum c"
  by (simp add: normalizar_texto_def alnum_def)

lemma alnum_nao_space: "alnum c \<Longrightarrow> \<not> is_space c"
  by (auto simp: alnum_def is_AZ_def is_digit_def is_space_def)

lemma alnum_nao_hifen: "alnum c \<Longrightarrow> c \<noteq> CHR ''-''"
  by (auto simp: alnum_def is_AZ_def is_digit_def cod_def)

lemma alnum_upper_char: "alnum c \<Longrightarrow> upper_char c = c"
  by (auto simp: alnum_def is_AZ_def is_digit_def is_az_def upper_char_def)

lemma strip_sem_space:
  assumes "\<And>c. c \<in> set y \<Longrightarrow> \<not> is_space c"
  shows "strip y = y"
proof -
  have "dropWhile is_space y = y"
    using assms by (cases y) auto
  moreover have "dropWhile is_space (rev y) = rev y"
  proof (cases "rev y")
    case Nil
    then show ?thesis by simp
  next
    case (Cons a r)
    then have "a \<in> set (rev y)" by simp
    then have "\<not> is_space a" using assms by simp
    then show ?thesis using Cons by simp
  qed
  ultimately show ?thesis by (simp add: strip_def lstrip_def rstrip_def)
qed

lemma upper_alnum:
  assumes "\<And>c. c \<in> set y \<Longrightarrow> alnum c"
  shows "upper y = y"
  unfolding upper_def using assms by (simp add: map_idI alnum_upper_char)

lemma tira_letra_hifen: "tira_letra r = Some t \<Longrightarrow> CHR ''-'' \<in> set r"
  by (auto simp: tira_letra_def split: list.splits if_splits)

lemma tira_digitos_hifen: "tira_digitos r = Some t \<Longrightarrow> CHR ''-'' \<in> set r"
  by (auto simp: tira_digitos_def split: list.splits if_splits)

lemma sub_no_fim_sem_hifen:
  assumes t: "\<And>r t. tira r = Some t \<Longrightarrow> CHR ''-'' \<in> set r"
    and y: "CHR ''-'' \<notin> set y"
  shows "sub_no_fim tira y = y"
proof -
  have a: "tira (rev y) = None"
    using t[of "rev y"] y by (cases "tira (rev y)") auto
  have b: "\<And>nl r. rev y = nl # r \<Longrightarrow> tira r = None"
  proof -
    fix nl r assume e: "rev y = nl # r"
    then have "set r \<subseteq> set y" by (metis set_rev set_subset_Cons)
    then show "tira r = None" using t[of r] y by (cases "tira r") auto
  qed
  show ?thesis using a b by (auto simp: sub_no_fim_def split: list.splits)
qed

lemma set_tira_prefixo: "set (tira_prefixo ps y) \<subseteq> set y"
  by (induction ps) (auto dest: in_set_dropD)

lemma normalizar_de_alnum:
  assumes y: "\<And>c. c \<in> set y \<Longrightarrow> alnum c"
  shows "normalizar_texto y = tira_prefixo prefixos_comuns y"
proof (cases "y = []")
  case True
  then show ?thesis by (simp add: normalizar_texto_def limpar_prefixo_def strip_def lstrip_def rstrip_def upper_def prefixos_comuns_def)
next
  case False
  let ?z = "tira_prefixo prefixos_comuns y"
  have z: "\<And>c. c \<in> set ?z \<Longrightarrow> alnum c"
    using set_tira_prefixo[of prefixos_comuns y] y by blast
  have "strip y = y" by (rule strip_sem_space) (simp add: y alnum_nao_space)
  moreover have "CHR ''-'' \<notin> set ?z" using z alnum_nao_hifen by blast
  ultimately have "limpar_prefixo y = ?z"
    using False
    by (simp add: limpar_prefixo_def sub_no_fim_sem_hifen tira_letra_hifen tira_digitos_hifen)
  moreover have "upper ?z = ?z" by (rule upper_alnum) (rule z)
  moreover have "strip ?z = ?z" by (rule strip_sem_space) (simp add: z alnum_nao_space)
  moreover have "filter (\<lambda>c. is_AZ c \<or> is_digit c) ?z = ?z"
    using z by (simp add: alnum_def)
  ultimately show ?thesis by (simp add: normalizar_texto_def)
qed

lemma normalizar_duas_vezes:
  "normalizar_texto (normalizar_texto x) = tira_prefixo prefixos_comuns (normalizar_texto x)"
  by (rule normalizar_de_alnum) (rule alnum_normalizar)

lemma prefix_com_hifen:
  assumes "prefix p y" and "CHR ''-'' \<in> set p" and "\<And>c. c \<in> set y \<Longrightarrow> alnum c"
  shows False
  using assms alnum_nao_hifen by (metis set_mono_prefix subsetD)

lemma tira_prefixo_nada:
  assumes "\<And>p. p \<in> set ps \<Longrightarrow> \<not> prefix p (upper y)"
  shows "tira_prefixo ps y = y"
  using assms by (induction ps) auto

text \<open>
  Claim C4, as amended.  For every text \<open>x\<close> whose normalised form does not start with one
  of the prefixes \<^verbatim>\<open>MED\<close>, \<^verbatim>\<open>FT\<close>, \<^verbatim>\<open>DP\<close>, \<^verbatim>\<open>BOL\<close>, \<^verbatim>\<open>NF\<close>, \<^verbatim>\<open>RC\<close>, \<^verbatim>\<open>FOL\<close>,
  \<^verbatim>\<open>normalizar_texto(normalizar_texto(x)) == normalizar_texto(x)\<close>.  (In general the second
  application cuts one such prefix off the normalised text and changes nothing else:
  \<open>normalizar_duas_vezes\<close>.)
\<close>

theorem normalizar_texto_estavel:
  assumes "\<forall>p \<in> set [''MED'', ''FT'', ''DP'', ''BOL'', ''NF'', ''RC'', ''FOL''].
             \<not> prefix p (normalizar_texto x)"
  shows "normalizar_texto (normalizar_texto x) = normalizar_texto x"
proof -
  let ?y = "normalizar_texto x"
  have al: "\<And>c. c \<in> set ?y \<Longrightarrow> alnum c" by (rule alnum_normalizar)
  have up: "upper ?y = ?y" by (rule upper_alnum) (rule al)
  have "\<And>p. p \<in> set prefixos_comuns \<Longrightarrow> \<not> prefix p (upper ?y)"
  proof
    fix p assume p: "p \<in> set prefixos_comuns" and pre: "prefix p (upper ?y)"
    from pre up have pre': "prefix p ?y" by simp
    from p consider "CHR ''-'' \<in> set p"
      | "p \<in> set [''MED'', ''FT'', ''DP'', ''BOL'', ''NF'', ''RC'', ''FOL'']"
      by (auto simp: prefixos_comuns_def)
    then show False
    proof cases
      case 1
      then show False using prefix_com_hifen[OF pre' _ al] by blast
    next
      case 2
      then show False using assms pre' by blast
    qed
  qed
  then have "tira_prefixo prefixos_comuns ?y = ?y" by (rule tira_prefixo_nada)
  then show ?thesis by (simp add: normalizar_duas_vezes)
qed

theorem normalizar_texto_estavel_witness:
  "normalizar_texto ''FT-12345'' = ''12345''
   \<and> normalizar_texto (normalizar_texto ''FT-12345'') = normalizar_texto ''FT-12345''"
proof -
  have h: "\<forall>p \<in> set [''MED'', ''FT'', ''DP'', ''BOL'', ''NF'', ''RC'', ''FOL''].
             \<not> prefix p (normalizar_texto ''FT-12345'')"
    by (simp add: normalizar_ft)
  from normalizar_texto_estavel[OF h] show ?thesis by (simp add: normalizar_ft)
qed

text \<open>
  Claim C4 as it was stated fails: \<^verbatim>\<open>NF-FT12345\<close> is normalised to \<^verbatim>\<open>FT12345\<close>, and that
  to \<^verbatim>\<open>12345\<close>, because each call cuts one prefix off.
\<close>

theorem normalizar_texto_nao_idempotente:
  "normalizar_texto ''NF-FT12345'' = ''FT12345''
   \<and> normalizar_texto (normalizar_texto ''NF-FT12345'') = ''12345''"
  by (simp add: normalizar_nf_ft normalizar_ft_sem_hifen)

section \<open>Properties of the amount parsers\<close>

lemmas numero_defs = digit_val_def digits_val_def split_sign_def parse_exponent_def escala_def
  parse_unsigned_def py_float_def py_decimal_def dec_neg_def dec_mul_def

lemmas parser_defs = float_of_int_def to_float_br_str_def to_float_br_def decimal_of_float_def
  limpar_valor_def separadores_def decimal_vezes_def parse_valor_str_def parse_valor_def

subsection \<open>White space at the ends of a text\<close>

lemma brancos_simps [simp]:
  "brancos []" "brancos (c # w) = (is_space c \<and> brancos w)"
  "brancos (v @ w) = (brancos v \<and> brancos w)" "brancos (rev w) = brancos w"
  by (auto simp: brancos_def)

lemma brancos_takeWhile [simp]: "brancos (takeWhile is_space x)"
  by (auto simp: brancos_def dest: set_takeWhileD)

lemma brancos_filter: "brancos w \<Longrightarrow> brancos (filter P w)"
  by (auto simp: brancos_def)

lemma dropWhile_brancos [simp]: "brancos w \<Longrightarrow> dropWhile is_space w = []"
  by (simp add: brancos_def)

lemma dropWhile_brancos_append:
  "brancos w \<Longrightarrow> dropWhile is_space (w @ x) = dropWhile is_space x"
  by (induction w) auto

lemma rstrip_decomp: "\<exists>w. brancos w \<and> y = rstrip y @ w"
proof -
  have "rev (takeWhile is_space (rev y) @ dropWhile is_space (rev y)) = rev (rev y)"
    by (simp only: takeWhile_dropWhile_id)
  then have "rev (dropWhile is_space (rev y)) @ rev (takeWhile is_space (rev y)) = y"
    by (simp only: rev_append rev_rev_ident)
  then have "y = rstrip y @ rev (takeWhile is_space (rev y))"
    by (simp only: rstrip_def)
  moreover have "brancos (rev (takeWhile is_space (rev y)))" by simp
  ultimately show ?thesis by blast
qed

lemma lstrip_decomp: "\<exists>w. brancos w \<and> x = w @ lstrip x"
  by (metis brancos_takeWhile lstrip_def takeWhile_dropWhile_id)

lemma strip_unico:
  assumes "brancos w1" and "brancos w2"
    and "core = [] \<or> (\<not> is_space (hd core) \<and> \<not> is_space (last core))"
  shows "strip (w1 @ core @ w2) = core"
proof (cases "core = []")
  case True
  then show ?thesis using assms(1,2) by (simp add: strip_def lstrip_def rstrip_def)
next
  case False
  then obtain c cs where c: "core = c # cs" by (cases core) auto
  have h: "\<not> is_space c" and l: "\<not> is_space (last core)" using assms(3) False c by auto
  have "lstrip (w1 @ core @ w2) = core @ w2"
    using assms(1) h c by (simp add: lstrip_def brancos_def)
  moreover obtain b e where be: "core = b @ [e]"
    using False by (metis rev_exhaust)
  then have "dropWhile is_space (rev core) = rev core" using l by simp
  then have "rstrip (core @ w2) = core"
    using assms(2) by (simp add: rstrip_def dropWhile_brancos_append)
  ultimately show ?thesis by (simp add: strip_def)
qed

lemma strip_pontas:
  "strip x = [] \<or> (\<not> is_space (hd (strip x)) \<and> \<not> is_space (last (strip x)))"
proof (cases "strip x = []")
  case True
  then show ?thesis by simp
next
  case False
  let ?y = "lstrip x"
  let ?d = "dropWhile is_space (rev ?y)"
  have d: "?d \<noteq> []" using False by (simp add: strip_def rstrip_def)
  then have "\<not> is_space (hd ?d)" by (rule hd_dropWhile)
  then have l: "\<not> is_space (last (strip x))"
    using d by (simp add: strip_def rstrip_def last_rev)
  obtain w where w: "brancos w" "?y = rstrip ?y @ w" using rstrip_decomp by blast
  have ne: "rstrip ?y \<noteq> []" using False by (simp add: strip_def)
  then have ne': "?y \<noteq> []" using w(2) by auto
  have "hd ?y = hd (rstrip ?y)" using w(2) ne by (metis hd_append2)
  moreover have "\<not> is_space (hd ?y)" using ne' unfolding lstrip_def by (rule hd_dropWhile)
  ultimately have "\<not> is_space (hd (strip x))" by (simp add: strip_def)
  then show ?thesis using l by simp
qed

lemma strip_decomp: "\<exists>w1 w2. brancos w1 \<and> brancos w2 \<and> x = w1 @ strip x @ w2"
proof -
  obtain w1 where w1: "brancos w1" "x = w1 @ lstrip x" using lstrip_decomp by blast
  obtain w2 where w2: "brancos w2" "lstrip x = rstrip (lstrip x) @ w2" using rstrip_decomp by blast
  have "x = w1 @ strip x @ w2" using w1(2) w2(2) by (simp add: strip_def)
  then show ?thesis using w1(1) w2(1) by blast
qed

lemma strip_pad:
  assumes "brancos w1" and "brancos w2"
  shows "strip (w1 @ x @ w2) = strip x"
proof -
  obtain v1 v2 where v: "brancos v1" "brancos v2" "x = v1 @ strip x @ v2"
    using strip_decomp by blast
  have "w1 @ x @ w2 = w1 @ (v1 @ strip x @ v2) @ w2"
    using v(3) by (rule arg_cong[where f = "\<lambda>z. w1 @ z @ w2"])
  then have "w1 @ x @ w2 = (w1 @ v1) @ strip x @ (v2 @ w2)"
    by (simp only: append_assoc)
  moreover have "strip ((w1 @ v1) @ strip x @ (v2 @ w2)) = strip x"
    by (rule strip_unico) (simp_all add: assms v(1,2) strip_pontas)
  ultimately show ?thesis by (simp only:)
qed

lemma strip_strip [simp]: "strip (strip x) = strip x"
  using strip_unico[of "[]" "[]" "strip x"] strip_pontas[of x] by simp

lemma strip_snoc:
  assumes "\<not> is_space c"
  shows "strip (s @ [c]) = lstrip s @ [c]"
proof -
  obtain w where w: "brancos w" "s = w @ lstrip s" using lstrip_decomp by blast
  have core: "lstrip s @ [c] = [] \<or>
      (\<not> is_space (hd (lstrip s @ [c])) \<and> \<not> is_space (last (lstrip s @ [c])))"
  proof (cases "lstrip s = []")
    case True
    then show ?thesis using assms by simp
  next
    case False
    then have "\<not> is_space (hd (lstrip s))" unfolding lstrip_def by (rule hd_dropWhile)
    then show ?thesis using assms False by (simp add: hd_append)
  qed
  have "strip (w @ (lstrip s @ [c]) @ []) = lstrip s @ [c]"
    using w(1) brancos_simps(1) core by (rule strip_unico)
  moreover have "s @ [c] = (w @ lstrip s) @ [c]"
    using w(2) by (rule arg_cong[where f = "\<lambda>z. z @ [c]"])
  then have "s @ [c] = w @ (lstrip s @ [c]) @ []" by (simp only: append_assoc append_Nil2)
  ultimately show ?thesis by (simp only:)
qed

subsection \<open>The replacements of \<^verbatim>\<open>parse_valor\<close> and white space\<close>

lemma nao_space_chars [simp]:
  "\<not> is_space (CHR '','')" "\<not> is_space (CHR ''.'')" "\<not> is_space (CHR ''$'')"
  "\<not> is_space (CHR ''R'')" "\<not> is_space (CHR ''D'')" "\<not> is_space (CHR ''C'')"
  "\<not> is_space (CHR ''_'')" "is_space (CHR '' '')"
  by (simp_all add: is_space_def cod_def)

lemma brancos_sem_char: "brancos w \<Longrightarrow> \<not> is_space c \<Longrightarrow> sem_char c w = w"
  by (induction w) (auto simp: sem_char_def)

lemma brancos_troca_char: "brancos w \<Longrightarrow> \<not> is_space a \<Longrightarrow> troca_char a b w = w"
  by (induction w) (auto simp: troca_char_def)

lemma brancos_notin: "brancos w \<Longrightarrow> \<not> is_space c \<Longrightarrow> c \<notin> set w"
  by (auto simp: brancos_def)

lemma sem_char_append: "sem_char c (x @ y) = sem_char c x @ sem_char c y"
  by (simp add: sem_char_def)

lemma troca_char_append: "troca_char a b (x @ y) = troca_char a b x @ troca_char a b y"
  by (simp add: troca_char_def)

lemma separadores_pad:
  assumes "brancos w1" and "brancos w2"
  shows "separadores (w1 @ x @ w2) = w1 @ separadores x @ w2"
  using assms
  by (simp add: separadores_def brancos_notin sem_char_append troca_char_append
      brancos_sem_char brancos_troca_char)

lemma strip_separadores: "strip (separadores (strip x)) = strip (separadores x)"
proof -
  obtain w1 w2 where w: "brancos w1" "brancos w2" "x = w1 @ strip x @ w2"
    using strip_decomp by blast
  have "separadores x = separadores (w1 @ strip x @ w2)"
    using w(3) by (rule arg_cong)
  then have "separadores x = w1 @ separadores (strip x) @ w2"
    by (simp only: separadores_pad[OF w(1,2)])
  then have "strip (separadores x) = strip (w1 @ separadores (strip x) @ w2)"
    by (rule arg_cong)
  then show ?thesis by (simp only: strip_pad[OF w(1,2)])
qed

lemma py_decimal_strip: "strip x = strip y \<Longrightarrow> py_decimal x = py_decimal y"
  by (simp add: py_decimal_def)

lemma py_decimal_separadores_strip:
  "py_decimal (separadores (strip x)) = py_decimal (separadores x)"
  by (rule py_decimal_strip) (rule strip_separadores)

lemma sem_cifrao_id: "CHR ''$'' \<notin> set w \<Longrightarrow> sem_cifrao w = w"
  by (induction w rule: sem_cifrao.induct) auto

lemma sem_cifrao_append:
  assumes "w = [] \<or> hd w \<noteq> CHR ''$''"
  shows "sem_cifrao (t @ w) = sem_cifrao t @ sem_cifrao w"
  using assms
  by (induction t rule: sem_cifrao.induct) (cases w; simp)+

lemma sem_cifrao_brancos: "brancos w \<Longrightarrow> sem_cifrao (t @ w) = sem_cifrao t @ w"
proof -
  assume w: "brancos w"
  then have "CHR ''$'' \<notin> set w" by (simp add: brancos_notin)
  moreover have "w = [] \<or> hd w \<noteq> CHR ''$''"
    using w by (cases w) auto
  ultimately show ?thesis by (simp add: sem_cifrao_append sem_cifrao_id)
qed

lemma sem_cifrao_snoc: "c \<noteq> CHR ''$'' \<Longrightarrow> sem_cifrao (t @ [c]) = sem_cifrao t @ [c]"
  by (simp add: sem_cifrao_append)

text \<open>The cleaned text of \<open>s\<close> followed by the suffix letter.\<close>

lemma limpar_valor_snoc:
  assumes "c = CHR ''D'' \<or> c = CHR ''C''"
  shows "\<exists>w. brancos w \<and> limpar_valor (s @ [c]) = (limpar_valor s @ w) @ [c]"
proof -
  have c: "\<not> is_space c" "c \<noteq> CHR ''$''" "c \<noteq> CHR '' ''" using assms by auto
  obtain w where w: "brancos w" "lstrip s = strip s @ w"
    using rstrip_decomp[of "lstrip s"] by (auto simp: strip_def)
  have "limpar_valor (s @ [c]) = sem_char (CHR '' '') (sem_cifrao (lstrip s @ [c]))"
    by (simp add: limpar_valor_def strip_snoc[OF c(1)])
  also have "\<dots> = sem_char (CHR '' '') (sem_cifrao (lstrip s)) @ [c]"
    using c by (simp add: sem_cifrao_snoc sem_char_append sem_char_def)
  also have "sem_cifrao (lstrip s) = sem_cifrao (strip s) @ w"
    using w by (simp add: sem_cifrao_brancos)
  finally have "limpar_valor (s @ [c]) = (limpar_valor s @ sem_char (CHR '' '') w) @ [c]"
    by (simp add: limpar_valor_def sem_char_append)
  moreover have "brancos (sem_char (CHR '' '') w)"
    using w(1) by (simp add: sem_char_def brancos_filter)
  ultimately show ?thesis by blast
qed

subsection \<open>The last character of a number\<close>

lemma parse_exponent_last:
  assumes "parse_exponent cs = Some e"
  shows "cs \<noteq> [] \<and> is_digit (last cs)"
proof -
  let ?ds = "snd (split_sign cs)"
  have ds: "?ds \<noteq> []" "list_all is_digit ?ds"
    using assms by (auto simp: parse_exponent_def Let_def split: if_splits)
  have "cs \<noteq> [] \<and> last cs = last ?ds"
    using ds(1) by (cases cs) (auto simp: split_sign_def split: if_splits)
  moreover have "is_digit (last ?ds)"
    using ds by (metis last_in_set list_all_iff)
  ultimately show ?thesis by simp
qed

lemma last_partes:
  "last (a @ c # f @ r) = (if r \<noteq> [] then last r else if f \<noteq> [] then last f else c)"
  "last (a @ r) = (if r \<noteq> [] then last r else last a)"
  by simp_all

lemma parse_unsigned_last:
  assumes "parse_unsigned u = Some q"
  shows "u \<noteq> [] \<and> (is_digit (last u) \<or> last u = CHR ''.'')"
proof -
  let ?ip = "takeWhile is_digit u"
  let ?r1 = "dropWhile is_digit u"
  have u: "u = ?ip @ ?r1" by simp
  have ip: "?ip \<noteq> [] \<Longrightarrow> is_digit (last ?ip)"
    by (metis last_in_set set_takeWhileD)
  have resto: "\<And>r2. (r2 = [] \<or> (\<exists>c cs e. r2 = c # cs \<and> parse_exponent cs = Some e)) \<Longrightarrow>
      r2 \<noteq> [] \<Longrightarrow> is_digit (last r2)"
    using parse_exponent_last by auto
  show ?thesis
  proof (cases "?r1 \<noteq> [] \<and> hd ?r1 = CHR ''.''")
    case True
    let ?fp = "takeWhile is_digit (tl ?r1)"
    let ?r2 = "dropWhile is_digit (tl ?r1)"
    have r1: "?r1 = CHR ''.'' # ?fp @ ?r2" using True by (cases ?r1) auto
    have fp: "?fp \<noteq> [] \<Longrightarrow> is_digit (last ?fp)"
      by (metis last_in_set set_takeWhileD)
    have r2: "?r2 = [] \<or> (\<exists>c cs e. ?r2 = c # cs \<and> parse_exponent cs = Some e)"
      using assms True
      by (auto simp: parse_unsigned_def Let_def split: if_splits list.splits option.splits)
    have eq: "u = ?ip @ CHR ''.'' # ?fp @ ?r2" using u r1 by simp
    have "u \<noteq> []" using True by auto
    moreover have "last u = last (?ip @ CHR ''.'' # ?fp @ ?r2)"
      using eq by (rule arg_cong)
    then have "last u = (if ?r2 \<noteq> [] then last ?r2 else if ?fp \<noteq> [] then last ?fp else CHR ''.'')"
      by (simp only: last_partes(1))
    ultimately show ?thesis using resto[OF r2] fp by (auto split: if_splits)
  next
    case False
    have ne: "?ip \<noteq> []"
      using assms False
      by (auto simp: parse_unsigned_def Let_def split: if_splits)
    have r2: "?r1 = [] \<or> (\<exists>c cs e. ?r1 = c # cs \<and> parse_exponent cs = Some e)"
      using assms False
      by (auto simp: parse_unsigned_def Let_def split: if_splits list.splits option.splits)
    have "u \<noteq> []" using ne by auto
    moreover have "last u = last (?ip @ ?r1)"
      using u by (rule arg_cong)
    then have "last u = (if ?r1 \<noteq> [] then last ?r1 else last ?ip)"
      by (simp only: last_partes(2))
    ultimately show ?thesis using resto[OF r2] ip[OF ne] by (auto split: if_splits)
  qed
qed

lemma lower_char_DC [simp]:
  "lower_char (CHR ''D'') = CHR ''d''" "lower_char (CHR ''C'') = CHR ''c''"
  by (simp_all add: lower_char_def is_AZ_def cod_def char_of_def bit_0)

lemma nao_digit_DC [simp]: "\<not> is_digit (CHR ''D'')" "\<not> is_digit (CHR ''C'')"
  by (simp_all add: is_digit_def cod_def)

lemma last_lower: "u \<noteq> [] \<Longrightarrow> last (lower u) = lower_char (last u)"
  by (simp add: lower_def last_map)

lemma take_drop_last:
  assumes "u \<noteq> []" and "\<not> is_digit (last u)" and "list_all is_digit (drop n u)"
  shows "take n u = u"
proof (cases "drop n u = []")
  case True
  then show ?thesis by simp
next
  case False
  then have "last (drop n u) = last u" by (simp add: last_drop)
  then have "is_digit (last u)"
    using assms(3) False by (metis last_in_set list_all_iff)
  then show ?thesis using assms(2) by simp
qed

lemma py_decimal_last:
  assumes "py_decimal x = Some d"
  shows "x = [] \<or> (last x \<noteq> CHR ''D'' \<and> last x \<noteq> CHR ''C'')"
proof (rule ccontr)
  assume "\<not> ?thesis"
  then have x: "x \<noteq> []" and lx: "last x = CHR ''D'' \<or> last x = CHR ''C''" by auto
  obtain b c where b: "x = b @ [c]" using x by (metis rev_exhaust)
  then have c: "last x = c" by simp
  have ns: "\<not> is_space c" using lx c by auto
  have "strip (b @ [c]) = lstrip b @ [c]" using ns by (rule strip_snoc)
  then have sx: "strip x = lstrip b @ [last x]" using b by simp
  let ?t = "sem_char (CHR ''_'') (strip x)"
  have t: "?t = sem_char (CHR ''_'') (lstrip b) @ [last x]"
    using sx lx by (auto simp: sem_char_def)
  let ?u = "snd (split_sign ?t)"
  have u: "?u \<noteq> [] \<and> last ?u = last x"
  proof (cases "sem_char (CHR ''_'') (lstrip b)")
    case Nil
    then show ?thesis using t lx by (auto simp: split_sign_def)
  next
    case (Cons a as)
    then show ?thesis using t by (auto simp: split_sign_def)
  qed
  then have ll: "last (lower ?u) = lower_char (last x)" by (simp add: last_lower)
  have nd: "\<not> is_digit (last ?u)" using u lx by auto
  have 1: "lower ?u \<noteq> ''inf''" "lower ?u \<noteq> ''infinity''"
    using ll lx by (auto dest: arg_cong[where f = last])
  have 2: "\<not> (lower (take 3 ?u) = ''nan'' \<and> list_all is_digit (drop 3 ?u))"
  proof
    assume a: "lower (take 3 ?u) = ''nan'' \<and> list_all is_digit (drop 3 ?u)"
    then have "take 3 ?u = ?u" using take_drop_last[of ?u 3] u nd by simp
    then have "lower ?u = ''nan''" using a by simp
    then show False using ll lx by (auto dest: arg_cong[where f = last])
  qed
  have 3: "\<not> (lower (take 4 ?u) = ''snan'' \<and> list_all is_digit (drop 4 ?u))"
  proof
    assume a: "lower (take 4 ?u) = ''snan'' \<and> list_all is_digit (drop 4 ?u)"
    then have "take 4 ?u = ?u" using take_drop_last[of ?u 4] u nd by simp
    then have "lower ?u = ''snan''" using a by simp
    then show False using ll lx by (auto dest: arg_cong[where f = last])
  qed
  have 4: "parse_unsigned ?u = None"
  proof (cases "parse_unsigned ?u")
    case None
    then show ?thesis .
  next
    case (Some q)
    then have "is_digit (last ?u) \<or> last ?u = CHR ''.''" using parse_unsigned_last by blast
    then show ?thesis using u lx by auto
  qed
  have "py_decimal x = None"
    using 1 2 3 4 by (simp add: py_decimal_def Let_def)
  then show False using assms by simp
qed

lemma separadores_last:
  assumes "v \<noteq> []" and "last v = CHR ''D'' \<or> last v = CHR ''C''"
  shows "separadores v \<noteq> [] \<and> last (separadores v) = last v"
proof -
  obtain b c where b: "v = b @ [c]" using assms(1) by (metis rev_exhaust)
  then have c: "c = CHR ''D'' \<or> c = CHR ''C''" using assms(2) by simp
  have "separadores (b @ [c]) \<noteq> [] \<and> last (separadores (b @ [c])) = c"
    using c by (auto simp: separadores_def sem_char_def troca_char_def)
  then show ?thesis using b by simp
qed

subsection \<open>The suffixes \<^verbatim>\<open>D\<close> and \<^verbatim>\<open>C\<close>\<close>

lemma py_decimal_Nil [simp]: "py_decimal [] = None"
  by (simp add: texto_defs numero_defs)

lemma parse_valor_str_sufixo:
  assumes q: "py_decimal (separadores (limpar_valor s)) = Some (DFin q)"
    and c: "c = CHR ''D'' \<or> c = CHR ''C''"
  shows "parse_valor_str (s @ [c]) = DFin (if c = CHR ''D'' then q else - q)"
proof -
  obtain w where w: "brancos w" "limpar_valor (s @ [c]) = (limpar_valor s @ w) @ [c]"
    using limpar_valor_snoc[OF c] by blast
  have "strip ([] @ limpar_valor s @ w) = strip (limpar_valor s)"
    using brancos_simps(1) w(1) by (rule strip_pad)
  then have st: "strip (limpar_valor s @ w) = strip (limpar_valor s)" by simp
  have "py_decimal (separadores (strip (limpar_valor s @ w))) = Some (DFin q)"
    using q by (simp only: st py_decimal_separadores_strip)
  then have dv: "\<And>m. decimal_vezes (separadores (strip (limpar_valor s @ w))) m = DFin (q * m)"
    by (simp add: decimal_vezes_def dec_mul_def)
  define v where "v = limpar_valor s @ w"
  have lv: "limpar_valor (s @ [c]) = v @ [c]" using w(2) by (simp only: v_def)
  have dv': "\<And>m. decimal_vezes (separadores (strip v)) m = DFin (q * m)"
    using dv by (simp only: v_def)
  show ?thesis
    using c dv' by (auto simp: parse_valor_str_def Let_def lv)
qed

lemma parse_valor_str_sem_sufixo:
  assumes q: "py_decimal (separadores (limpar_valor s)) = Some (DFin q)"
  shows "parse_valor_str s = DFin q"
proof -
  let ?v = "limpar_valor s"
  have "?v = [] \<or> (last ?v \<noteq> CHR ''D'' \<and> last ?v \<noteq> CHR ''C'')"
  proof (rule ccontr)
    assume "\<not> ?thesis"
    then have v: "?v \<noteq> []" "last ?v = CHR ''D'' \<or> last ?v = CHR ''C''" by auto
    from separadores_last[OF v] py_decimal_last[OF q] v(2) show False by auto
  qed
  then show ?thesis
    using q by (auto simp: parse_valor_str_def Let_def decimal_vezes_def dec_mul_def)
qed

text \<open>
  Claim C7, as amended.  For \<^verbatim>\<open>parse_valor\<close>: when the text \<open>s\<close> is a number \<open>q\<close> for the
  parser (its cleaned form, after the replacement of the separators, is accepted by
  \<^verbatim>\<open>Decimal\<close> as the finite number \<open>q\<close>), \<open>s\<close> itself is parsed to \<open>q\<close>, \<open>s\<close>
  followed by \<^verbatim>\<open>D\<close> to \<open>+1\<close> times \<open>q\<close> and \<open>s\<close> followed by \<^verbatim>\<open>C\<close> to \<open>-1\<close> times \<open>q\<close>.
  (\<^verbatim>\<open>to_float_br\<close> has no such suffix.)
\<close>

theorem parse_valor_sufixo_D_C:
  assumes "py_decimal (separadores (limpar_valor s)) = Some (DFin q)"
  shows "parse_valor (VStr s) = Inr (DFin q)
       \<and> parse_valor (VStr (s @ ''D'')) = Inr (DFin (1 * q))
       \<and> parse_valor (VStr (s @ ''C'')) = Inr (DFin (- 1 * q))"
  using parse_valor_str_sem_sufixo[OF assms]
    parse_valor_str_sufixo[OF assms, of "CHR ''D''"]
    parse_valor_str_sufixo[OF assms, of "CHR ''C''"]
  by (cases "s = []") (simp_all add: parse_valor_def parse_valor_str_def limpar_valor_def strip_def lstrip_def rstrip_def sem_char_def separadores_def decimal_vezes_def)

lemma limpar_1234: "py_decimal (separadores (limpar_valor ''R$ 1.234,56'')) = Some (DFin (123456 / 100))"
  by (simp add: texto_defs numero_defs parser_defs)

theorem parse_valor_sufixo_D_C_witness:
  "parse_valor (VStr ''R$ 1.234,56'') = Inr (DFin (123456 / 100))
   \<and> parse_valor (VStr ''R$ 1.234,56D'') = Inr (DFin (123456 / 100))
   \<and> parse_valor (VStr ''R$ 1.234,56C'') = Inr (DFin (- (123456 / 100)))"
  using parse_valor_sufixo_D_C[OF limpar_1234] by simp

text \<open>
  Claim C7 as it was stated fails for \<^verbatim>\<open>to_float_br\<close>, which does not know the suffixes:
  \<^verbatim>\<open>100\<close> is parsed to 100, but \<^verbatim>\<open>100C\<close> and \<^verbatim>\<open>100D\<close> are no numbers for \<^verbatim>\<open>float\<close> and
  give zero.
\<close>

theorem to_float_br_ignora_sufixo:
  "to_float_br (VStr ''100'') = Inr (FFin 100)
   \<and> to_float_br (VStr ''100C'') = Inr (FFin 0)
   \<and> to_float_br (VStr ''100D'') = Inr (FFin 0)"
  by (simp add: texto_defs numero_defs parser_defs)

subsection \<open>Inputs on which the fallback to zero is missed\<close>

text \<open>
  Claim C8 says that both parsers never raise and return zero on every input that is no
  number.  The code does otherwise here: \<^verbatim>\<open>parse_valor\<close> raises on a boolean, and returns
  NaN for the text \<^verbatim>\<open>NaN\<close> and for a float NaN, on which \<^verbatim>\<open>to_float_br\<close> returns zero;
  \<^verbatim>\<open>to_float_br\<close> returns NaN for the text \<^verbatim>\<open>+nan\<close> and raises on an integer beyond the
  range of a float.
\<close>

theorem parse_valor_sem_fallback:
  "parse_valor (VBool True) = Inl InvalidOperation
   \<and> parse_valor (VStr ''NaN'') = Inr DNaN
   \<and> parse_valor (VFloat FNaN) = Inr DNaN
   \<and> to_float_br (VStr ''NaN'') = Inr (FFin 0)
   \<and> to_float_br (VFloat FNaN) = Inr (FFin 0)
   \<and> to_float_br (VStr ''+nan'') = Inr FNaN
   \<and> to_float_br (VInt (2 ^ 1024)) = Inl OverflowError"
  by (simp add: texto_defs numero_defs parser_defs char_of_def bit_0)

subsection \<open>A point without a comma is the decimal point\<close>

lemma ponto_props:
  "\<not> is_digit (CHR ''.'')" "lower_char (CHR ''.'') = CHR ''.''"
  by (simp_all add: is_digit_def is_AZ_def lower_char_def cod_def)

lemma strip_c_sem_space:
  assumes "\<And>c. c \<in> set y \<Longrightarrow> \<not> is_space_c c"
  shows "strip_c y = y"
proof -
  have "dropWhile is_space_c y = y"
    using assms by (cases y) auto
  moreover have "dropWhile is_space_c (rev y) = rev y"
  proof (cases "rev y")
    case Nil
    then show ?thesis by simp
  next
    case (Cons a r)
    then have "a \<in> set (rev y)" by simp
    then have "\<not> is_space_c a" using assms by simp
    then show ?thesis using Cons by simp
  qed
  ultimately show ?thesis by (simp add: strip_c_def)
qed

lemma is_space_c_is_space: "is_space_c c \<Longrightarrow> is_space c"
  by (auto simp: is_space_c_def is_space_def)

lemma simples_props:
  assumes "simples c"
  shows "\<not> is_space c" "c \<noteq> CHR ''_''" "c \<noteq> CHR '' ''" "c \<noteq> CHR '',''"
    "c \<noteq> CHR ''$''" "c \<noteq> CHR ''D''" "c \<noteq> CHR ''C''" "c \<noteq> CHR ''-''" "c \<noteq> CHR ''+''"
    "lower_char c = c" "c \<noteq> CHR ''i''" "c \<noteq> CHR ''n''" "c \<noteq> CHR ''s''" "c \<noteq> CHR ''R''"
  using assms
  by (auto simp: simples_def is_digit_def is_space_def is_AZ_def lower_char_def cod_def)

lemma simples_texto:
  assumes "digitos a" and "digitos b"
  shows "\<forall>c \<in> set (a @ ''.'' @ b). simples c"
  using assms by (auto simp: digitos_def simples_def list_all_iff)

lemma parse_unsigned_com_ponto:
  assumes a: "digitos a" and b: "digitos b" and ne: "a @ b \<noteq> []"
  shows "parse_unsigned (a @ ''.'' @ b) = Some (decimal_com_ponto a b)"
proof -
  have da: "\<And>x. x \<in> set a \<Longrightarrow> is_digit x" and db: "\<And>x. x \<in> set b \<Longrightarrow> is_digit x"
    using a b by (auto simp: digitos_def list_all_iff)
  have 1: "takeWhile is_digit (a @ CHR ''.'' # b) = a"
    using da by (simp add: ponto_props)
  have 2: "dropWhile is_digit (a @ CHR ''.'' # b) = CHR ''.'' # b"
    using da by (simp add: ponto_props)
  have 3: "takeWhile is_digit b = b" "dropWhile is_digit b = []"
    using db by simp_all
  show ?thesis
    using ne by (simp add: parse_unsigned_def Let_def 1 2 3 decimal_com_ponto_def)
qed

lemma texto_simples:
  assumes s: "\<forall>c \<in> set s. simples c"
  shows "strip s = s" "sem_char (CHR ''_'') s = s" "sem_char (CHR '' '') s = s"
    "CHR '','' \<notin> set s" "sem_cifrao s = s" "lower s = s" "split_sign s = (False, s)"
    "underscores_ok (CHR 0x00) s" "s \<noteq> [] \<Longrightarrow> last s \<noteq> CHR ''D'' \<and> last s \<noteq> CHR ''C''"
    "strip_c s = s"
proof -
  show "strip_c s = s"
    by (rule strip_c_sem_space) (use s simples_props(1) is_space_c_is_space in blast)
  show "strip s = s"
    by (rule strip_sem_space) (use s simples_props(1) in blast)
  show "sem_char (CHR ''_'') s = s"
    using s simples_props(2) by (auto simp: sem_char_def filter_id_conv)
  show "sem_char (CHR '' '') s = s"
    using s simples_props(3) by (auto simp: sem_char_def filter_id_conv)
  show "CHR '','' \<notin> set s" using s simples_props(4) by blast
  show "sem_cifrao s = s"
    by (rule sem_cifrao_id) (use s simples_props(5) in blast)
  show "lower s = s"
    using s simples_props(10) by (simp add: lower_def map_idI)
  show "split_sign s = (False, s)"
    using s simples_props(8,9) by (cases s) (auto simp: split_sign_def)
  have "\<And>p. p \<noteq> CHR ''_'' \<Longrightarrow> underscores_ok p s"
    using s
  proof (induction s)
    case Nil
    then show ?case by simp
  next
    case (Cons c cs)
    then show ?case using simples_props(2)[of c] by simp
  qed
  then show "underscores_ok (CHR 0x00) s" by simp
  show "s \<noteq> [] \<Longrightarrow> last s \<noteq> CHR ''D'' \<and> last s \<noteq> CHR ''C''"
    using s simples_props(6,7) by (metis last_in_set)
qed

lemma texto_simples_nao_nome:
  assumes s: "\<forall>c \<in> set s. simples c"
  shows "s \<noteq> ''inf''" "s \<noteq> ''infinity''" "s \<noteq> ''nan''"
    "take 3 s \<noteq> ''nan''" "take 4 s \<noteq> ''snan''"
proof -
  have h: "s = [] \<or> (hd s \<noteq> CHR ''i'' \<and> hd s \<noteq> CHR ''n'' \<and> hd s \<noteq> CHR ''s'')"
    using s simples_props(11,12,13) by (cases s) auto
  show "s \<noteq> ''inf''" "s \<noteq> ''infinity''" "s \<noteq> ''nan''" using h by auto
  show "take 3 s \<noteq> ''nan''" using h by (cases s) auto
  show "take 4 s \<noteq> ''snan''" using h by (cases s) auto
qed

lemma lower_take_simples:
  assumes s: "\<forall>c \<in> set s. simples c"
  shows "lower (take n s) = take n s"
  using s simples_props(10) by (simp add: lower_def map_idI) (metis in_set_takeD map_idI)

text \<open>
  Claim C9.  For digit strings \<open>a\<close> and \<open>b\<close>, not both empty, both parsers read the text
  \<open>a\<close>, point, \<open>b\<close> (a point and no comma) as the number with integer part \<open>a\<close> and
  decimal part \<open>b\<close>: the point is the decimal point, not a thousands separator.  So
  \<^verbatim>\<open>1.000\<close> is 1, not 1000.
\<close>

theorem ponto_sem_virgula_e_decimal:
  assumes "digitos a" and "digitos b" and "a @ b \<noteq> []"
  shows "to_float_br (VStr (a @ ''.'' @ b)) = Inr (FFin (decimal_com_ponto a b))
       \<and> parse_valor (VStr (a @ ''.'' @ b)) = Inr (DFin (decimal_com_ponto a b))"
proof -
  define s where "s = a @ ''.'' @ b"
  have s: "\<forall>c \<in> set s. simples c"
    unfolding s_def using assms(1,2) by (rule simples_texto)
  have ne: "s \<noteq> []" by (simp add: s_def)
  note t = texto_simples[OF s] texto_simples_nao_nome[OF s] lower_take_simples[OF s]
  have pu: "parse_unsigned s = Some (decimal_com_ponto a b)"
    unfolding s_def using assms by (rule parse_unsigned_com_ponto)
  have f: "py_float s = Some (FFin (decimal_com_ponto a b))"
    by (simp add: py_float_def Let_def t pu)
  have d: "py_decimal s = Some (DFin (decimal_com_ponto a b))"
    by (simp add: py_decimal_def Let_def t pu)
  have 1: "to_float_br (VStr s) = Inr (FFin (decimal_com_ponto a b))"
    using ne by (simp add: to_float_br_def to_float_br_str_def Let_def t f)
  have "separadores s = s" using t(4) by (simp add: separadores_def)
  then have 2: "parse_valor (VStr s) = Inr (DFin (decimal_com_ponto a b))"
    using ne t(9)
    by (simp add: parse_valor_def parse_valor_str_def limpar_valor_def Let_def t(1,3,5)
        decimal_vezes_def d dec_mul_def)
  from 1 2 show ?thesis by (simp only: s_def)
qed

theorem ponto_sem_virgula_e_decimal_witness:
  "to_float_br (VStr ''1.000'') = Inr (FFin 1) \<and> parse_valor (VStr ''1.000'') = Inr (DFin 1)"
proof -
  have h: "digitos ''1''" "digitos ''000''" "''1'' @ ''000'' \<noteq> []"
    by (simp_all add: digitos_def is_digit_def cod_def)
  have v: "decimal_com_ponto ''1'' ''000'' = 1"
    by (simp add: decimal_com_ponto_def digits_val_def digit_val_def cod_def)
  from ponto_sem_virgula_e_decimal[OF h] v show ?thesis by simp
qed

section \<open>Properties of \<^verbatim>\<open>processar_lancamentos\<close>\<close>








section \<open>Properties of \<^verbatim>\<open>realizar_matching\<close>\<close>

lemma passo_par_finito:
  assumes "valor_liquido (snd nf) = DFin a" and "valor_liquido (snd rec) = DFin b"
  shows "passo_par nf rec st =
           Inr (if casa nf rec
                then (fst st @ [par_de nf rec], insert (fst nf) (fst (snd st)),
                      insert (fst rec) (snd (snd st)))
                else st)"
  using assms
  by (simp add: passo_par_def dec_sub_def dec_add_def dec_neg_def dec_abs_def dec_less_def
      casa_def valor_def par_de_def)

lemma fold_passo_par:
  assumes "valor_liquido (snd nf) = DFin a" and "finitos recs"
  shows "fold_err (passo_par nf) recs (ms, A, B) =
           Inr (ms @ pares_de recs nf,
                (if \<exists>rec \<in> set recs. casa nf rec then insert (fst nf) A else A),
                B \<union> fst ` {rec \<in> set recs. casa nf rec})"
  using assms(2)
proof (induction recs arbitrary: ms A B)
  case Nil
  then show ?case by (simp add: pares_de_def)
next
  case (Cons rec recs)
  from Cons.prems obtain b where b: "valor_liquido (snd rec) = DFin b" and f: "finitos recs"
    by (auto simp: finitos_def)
  show ?case
    by (simp add: passo_par_finito[OF assms(1) b] Cons.IH[OF f] pares_de_def)
      (auto simp: insert_absorb)
qed

lemma fold_nfs:
  assumes "finitos ds" and "finitos recs"
  shows "fold_err (\<lambda>nf. fold_err (passo_par nf) recs) ds (ms, A, B) =
           Inr (ms @ concat (map (pares_de recs) ds),
                A \<union> fst ` {nf \<in> set ds. \<exists>rec \<in> set recs. casa nf rec},
                B \<union> fst ` {rec \<in> set recs. \<exists>nf \<in> set ds. casa nf rec})"
  using assms(1)
proof (induction ds arbitrary: ms A B)
  case Nil
  then show ?case by simp
next
  case (Cons nf ds)
  from Cons.prems obtain a where a: "valor_liquido (snd nf) = DFin a" and f: "finitos ds"
    by (auto simp: finitos_def)
  show ?case
    by (simp add: fold_passo_par[OF a assms(2)] Cons.IH[OF f]) auto
qed




subsection \<open>The matches on concrete buckets\<close>

lemmas matching_defs = realizar_matching_def passo_par_def dec_sub_def dec_add_def dec_neg_def
  dec_abs_def dec_less_def nf_ex_def rec_ex_def buckets_ex_def


text \<open>
  Claim C2 as it was stated fails for \<^verbatim>\<open>realizar_matching\<close>: with two invoices of net value
  980.00 and one receipt of net value 980.00, the receipt is in two entries of
  \<^verbatim>\<open>self.matches\<close>.
\<close>

theorem realizar_matching_recebimento_em_dois_matches:
  "realizar_matching
     (buckets_ex [nf_ex ''000002902'' 980 0, nf_ex ''000002903'' 980 0]
                 [rec_ex ''1000670'' 0 980]) =
   Inr ((buckets_ex [nf_ex ''000002902'' 980 0, nf_ex ''000002903'' 980 0]
                    [rec_ex ''1000670'' 0 980])
        \<lparr> matches :=
            [\<lparr> nf_numero = ''000002902'', nf_valor = DFin 980, rec_numero = ''1000670'',
               rec_valor = DFin 980, diferenca = DFin 0 \<rparr>,
             \<lparr> nf_numero = ''000002903'', nf_valor = DFin 980, rec_numero = ''1000670'',
               rec_valor = DFin 980, diferenca = DFin 0 \<rparr>] \<rparr>)"
  by (simp add: matching_defs)

subsection \<open>No pair is recorded twice\<close>

lemma chave_pares_de:
  "map chave (pares_de recs nf) = map (\<lambda>rec. (fst nf, fst rec)) (filter (casa nf) recs)"
  by (simp add: pares_de_def chave_def par_de_def o_def)

lemma distinct_pares_de:
  assumes "distinct (map fst recs)"
  shows "distinct (map chave (pares_de recs nf))"
proof -
  have "distinct (map fst (filter (casa nf) recs))"
    using assms by (rule distinct_map_filter)
  then have "distinct (map (Pair (fst nf)) (map fst (filter (casa nf) recs)))"
    by (simp add: distinct_map inj_on_def)
  then show ?thesis by (simp add: chave_pares_de o_def)
qed

lemma fst_chave_pares_de: "k \<in> set (map chave (pares_de recs nf)) \<Longrightarrow> fst k = fst nf"
  by (auto simp: chave_pares_de)

lemma distinct_chaves:
  assumes "distinct (map fst recs)" and "distinct (map fst ds)"
  shows "distinct (map chave (concat (map (pares_de recs) ds)))"
  using assms(2)
proof (induction ds)
  case Nil
  then show ?case by simp
next
  case (Cons nf ds)
  have d: "distinct (map chave (concat (map (pares_de recs) ds)))"
    using Cons by simp
  have "set (map chave (pares_de recs nf)) \<inter> set (map chave (concat (map (pares_de recs) ds))) = {}"
  proof (rule ccontr)
    assume "\<not> ?thesis"
    then obtain k where k1: "k \<in> set (map chave (pares_de recs nf))"
      and k2: "k \<in> set (map chave (concat (map (pares_de recs) ds)))" by blast
    from k2 obtain nf' where nf': "nf' \<in> set ds" "k \<in> set (map chave (pares_de recs nf'))"
      by auto
    have "fst nf = fst nf'"
      using fst_chave_pares_de[OF k1] fst_chave_pares_de[OF nf'(2)] by simp
    then have "fst nf \<in> fst ` set ds" using nf'(1) by (metis imageI)
    then show False using Cons.prems by simp
  qed
  then show ?case using d distinct_pares_de[OF assms(1), of nf] by simp
qed

subsection \<open>What \<^verbatim>\<open>realizar_matching\<close> records\<close>



subsection \<open>At most one match for a record\<close>

text \<open>
  Claim C2, as amended.  In \<^verbatim>\<open>conciliar\<close>, no accounting position is in more than one
  \<^verbatim>\<open>OK\<close> row.  In \<^verbatim>\<open>realizar_matching\<close>, started with an empty \<^verbatim>\<open>matches\<close> list on buckets
  with finite net values, no pair of an invoice bucket and a receipt bucket is in more
  than one entry of the list.
\<close>

theorem no_maximo_um_match:
  assumes "\<And>xs. set (list_set xs) = set xs"
    and "finitos (nfs sis)" and "finitos (recebimentos sis)"
    and "distinct (map fst (nfs sis))" and "distinct (map fst (recebimentos sis))"
    and "matches sis = []"
  shows "vezes_cont_ok j (conciliar list_set fin cont tolerancia min_len) \<le> 1
       \<and> (\<exists>sis'. realizar_matching sis = Inr sis' \<and> distinct (map chave (matches sis')))"
proof -
  have "distinct (map chave (concat (map (pares_de (recebimentos sis)) (nfs sis))))"
    using assms(5,4) by (rule distinct_chaves)
  then have "\<exists>sis'. realizar_matching sis = Inr sis' \<and> distinct (map chave (matches sis'))"
    using assms(6) by (simp add: realizar_matching_def fold_nfs[OF assms(2,3)])
  then show ?thesis using conciliar_vezes_cont_ok[OF assms(1)] by simp
qed

theorem no_maximo_um_match_witness:
  "vezes_cont_ok 0 (conciliar remdups (df_fin [fin_ft]) (df_cont [cont_pagto]) (1 / 100) 3) \<le> 1
   \<and> (\<exists>sis'. realizar_matching
                (buckets_ex [nf_ex ''000002902'' 980 0, nf_ex ''000002903'' 980 0]
                            [rec_ex ''1000670'' 0 980]) = Inr sis'
             \<and> distinct (map chave (matches sis')))"
proof -
  let ?sis = "buckets_ex [nf_ex ''000002902'' 980 0, nf_ex ''000002903'' 980 0]
                            [rec_ex ''1000670'' 0 980]"
  have k: "\<And>xs::nat list. set (remdups xs) = set xs" by simp
  have h: "finitos (nfs ?sis)" "finitos (recebimentos ?sis)"
    "distinct (map fst (nfs ?sis))" "distinct (map fst (recebimentos ?sis))" "matches ?sis = []"
    by (simp_all add: finitos_def buckets_ex_def nf_ex_def rec_ex_def)
  show ?thesis by (rule no_maximo_um_match[of remdups, OF k h])
qed

end
